theory Spec2Isabelle
  imports Main "HOL-Library.Sublist"
begin

section \<open>JavaScript values and their coercions\<close>

text \<open>
  Numbers are the safe integers, those strictly between \<open>-2^53\<close> and \<open>2^53\<close>: each of
  them is a double of its own and prints as its decimal digits. Other numbers (larger
  ones, fractions, \<open>NaN\<close>) are not represented.
\<close>

typedef safe_int = "{i :: int. - 9007199254740992 < i \<and> i < 9007199254740992}"
  by (rule exI [of _ 0]) simp

text \<open>
  The values that reach the code: parameters, item data, response bodies, and what a
  property read can give. \<open>JUndefined\<close> is the value of a missing property; \<open>JFun name\<close>
  is a built-in function, as the ones every object inherits.
\<close>

datatype jsval =
    JUndefined
  | JNull
  | JBool bool
  | JNum safe_int
  | JStr string
  | JArr "jsval list"
  | JObj "(string \<times> jsval) list"
  | JFun string

text \<open>ToBoolean: what \<open>a || b\<close> and \<open>if (a)\<close> test.\<close>

fun truthy :: "jsval \<Rightarrow> bool" where
  "truthy JUndefined = False"
| "truthy JNull = False"
| "truthy (JBool b) = b"
| "truthy (JNum n) = (Rep_safe_int n \<noteq> 0)"
| "truthy (JStr s) = (s \<noteq> [])"
| "truthy (JArr xs) = True"
| "truthy (JObj kvs) = True"
| "truthy (JFun name) = True"

text \<open>The decimal digits of an integer, applied below to safe integers only.\<close>

definition digit_char :: "nat \<Rightarrow> char" where
  "digit_char d = char_of (48 + d)"

fun dec_nat :: "nat \<Rightarrow> string" where
  "dec_nat n = (if n < 10 then [digit_char n] else dec_nat (n div 10) @ [digit_char (n mod 10)])"

definition dec_int :: "int \<Rightarrow> string" where
  "dec_int i = (if i < 0 then CHR ''-'' # dec_nat (nat (- i)) else dec_nat (nat i))"

fun join_with :: "string \<Rightarrow> string list \<Rightarrow> string" where
  "join_with sep [] = []"
| "join_with sep [x] = x"
| "join_with sep (x # y # ys) = x @ sep @ join_with sep (y # ys)"

text \<open>ToString. An array prints its elements joined by commas, \<open>null\<close> and
  \<open>undefined\<close> elements as the empty string; a plain object prints as
  \<open>[object Object]\<close>; a built-in function prints as
  \<open>function name() { [native code] }\<close>.\<close>

fun to_string :: "jsval \<Rightarrow> string" where
  "to_string JUndefined = ''undefined''"
| "to_string JNull = ''null''"
| "to_string (JBool b) = (if b then ''true'' else ''false'')"
| "to_string (JNum n) = dec_int (Rep_safe_int n)"
| "to_string (JStr s) = s"
| "to_string (JArr xs) =
     join_with '',''
       (map (\<lambda>x. if x = JUndefined \<or> x = JNull then [] else to_string x) xs)"
| "to_string (JObj kvs) = ''[object Object]''"
| "to_string (JFun name) = ''function '' @ name @ ''() { [native code] }''"

text \<open>What a plain object inherits from \<open>Object.prototype\<close>: the properties whose names
  are made of word characters. All are built-in functions but \<open>__proto__\<close>, whose read
  gives the prototype object itself.\<close>

definition object_prototype :: "string \<rightharpoonup> jsval" where
  "object_prototype =
     map_of
       [(''constructor'', JFun ''Object''),
        (''toString'', JFun ''toString''),
        (''toLocaleString'', JFun ''toLocaleString''),
        (''valueOf'', JFun ''valueOf''),
        (''hasOwnProperty'', JFun ''hasOwnProperty''),
        (''isPrototypeOf'', JFun ''isPrototypeOf''),
        (''propertyIsEnumerable'', JFun ''propertyIsEnumerable''),
        (''__defineGetter__'', JFun ''__defineGetter__''),
        (''__defineSetter__'', JFun ''__defineSetter__''),
        (''__lookupGetter__'', JFun ''__lookupGetter__''),
        (''__lookupSetter__'', JFun ''__lookupSetter__''),
        (''__proto__'', JObj [])]"

text \<open>The property read \<open>object[key]\<close> on a plain object with the given properties of
  its own: an own property first, then an inherited one, else \<open>undefined\<close>.\<close>

definition get_property :: "(string \<rightharpoonup> jsval) \<Rightarrow> string \<Rightarrow> jsval" where
  "get_property own key =
     (case own key of
        Some v \<Rightarrow> v
      | None \<Rightarrow> (case object_prototype key of Some v \<Rightarrow> v | None \<Rightarrow> JUndefined))"

section \<open>The request executor: \<open>makeAirtableRequest\<close>\<close>

subsection \<open>Credentials and the Authorization header\<close>

text \<open>A credentials object; \<open>None\<close> is a property that is not set.\<close>

record credentials =
  authenticationType :: "string option"
  accessToken :: "string option"
  apiKey :: "string option"

text \<open>\<open>credentials.accessToken || credentials.apiKey\<close>: the access token when it is
  a non-empty string, else whatever \<open>apiKey\<close> holds (also when that is unset or empty).\<close>

definition token :: "credentials \<Rightarrow> string option" where
  "token c =
     (case accessToken c of
        Some t \<Rightarrow> if t \<noteq> [] then Some t else apiKey c
      | None \<Rightarrow> apiKey c)"

text \<open>\<open>authenticationType === "pat" ? `Bearer ${token}` : token\<close>. The template
  literal prints an unset token as \<open>undefined\<close>.\<close>

definition authHeader :: "credentials \<Rightarrow> string option" where
  "authHeader c =
     (if authenticationType c = Some ''pat''
      then Some (''Bearer '' @ (case token c of None \<Rightarrow> ''undefined'' | Some t \<Rightarrow> t))
      else token c)"

subsection \<open>Requests, responses and effects\<close>

text \<open>The axios configuration of one attempt.\<close>

record 'd config =
  cfg_method :: string
  cfg_url :: string
  cfg_authorization :: "string option"
  cfg_content_type :: string
  cfg_timeout :: int
  cfg_data :: "'d option"

text \<open>What axios rejects with: \<open>error.response?.status\<close> (\<open>None\<close> when there is no
  response, as for a refused connection or a timeout),
  \<open>error.response.data?.error?.message\<close> and \<open>error.message\<close>.\<close>

record http_error =
  err_status :: "nat option"
  err_detail :: "string option"
  err_message :: string

text \<open>The outcome of one \<open>await axios(config)\<close>: it resolves with \<open>response.data\<close>
  (a 2xx status) or rejects.\<close>

datatype 'j response = Success 'j | Failure http_error

text \<open>The observable effects of the executor, in order: a request sent, the warning
  \<open>Rate limited. Retrying in ${waitTime}ms...\<close> logged for a \<open>waitTime\<close>, and a sleep of
  \<open>waitTime\<close> milliseconds asked of \<open>setTimeout\<close>.\<close>

datatype 'd event = Request "'d config" | Warn int | Sleep int

datatype js_error = Error string | TypeError

datatype 'j loop_exit = Returned 'j | Exhausted "http_error option"

definition prefix_trace :: "'e list \<Rightarrow> 'r \<times> 'e list \<Rightarrow> 'r \<times> 'e list" where
  "prefix_trace evs p = (fst p, evs @ snd p)"

text \<open>The \<open>for (let attempt = 0; attempt <= maxRetries; attempt++)\<close> loop. \<open>http k\<close> is
  the outcome of the \<open>k\<close>-th call of axios; every attempt sends the same configuration.
  A 429 with no retry left neither continues nor breaks: the loop counter is incremented
  and the loop condition ends the loop. \<open>maxRetries\<close> and \<open>retryDelay\<close> are integers, and
  \<open>retryDelay * Math.pow(2, attempt)\<close> is computed without rounding (a product with a power
  of two is exact in a double until it overflows). \<open>Sleep w\<close> is the call
  \<open>setTimeout(resolve, w)\<close> that the executor waits for.\<close>

function attempt_loop ::
  "(nat \<Rightarrow> 'j response) \<Rightarrow> 'd config \<Rightarrow> int \<Rightarrow> int \<Rightarrow> nat \<Rightarrow> http_error option
     \<Rightarrow> 'j loop_exit \<times> 'd event list" where
  "attempt_loop http config maxRetries retryDelay attempt lastError =
     (if int attempt \<le> maxRetries then
        (case http attempt of
           Success d \<Rightarrow> (Returned d, [Request config])
         | Failure error \<Rightarrow>
             if err_status error = Some 429 \<and> int attempt < maxRetries then
               prefix_trace
                 [Request config,
                  Warn (retryDelay * 2 ^ attempt),
                  Sleep (retryDelay * 2 ^ attempt)]
                 (attempt_loop http config maxRetries retryDelay (Suc attempt) (Some error))
             else if err_status error \<noteq> Some 429 then
               (Exhausted (Some error), [Request config])
             else
               prefix_trace [Request config]
                 (attempt_loop http config maxRetries retryDelay (Suc attempt) (Some error)))
      else (Exhausted lastError, []))"
  by pat_completeness auto
termination
  by (relation "measure (\<lambda>(http, config, maxRetries, retryDelay, attempt, lastError).
        nat (maxRetries + 1 - int attempt))") auto

text \<open>The classification after the loop. With no error recorded (the loop body never
  ran), reading \<open>lastError.response\<close> throws a TypeError.\<close>

definition classify :: "http_error option \<Rightarrow> js_error" where
  "classify lastError =
     (case lastError of
        None \<Rightarrow> TypeError
      | Some e \<Rightarrow>
          if err_status e = Some 401 then
            Error ''Invalid Airtable credentials. Please check your token.''
          else if err_status e = Some 403 then
            Error ''Access forbidden. Check your token permissions.''
          else if err_status e = Some 404 then
            Error ''Resource not found. Check your base ID, table name, or record ID.''
          else if err_status e = Some 422 then
            Error (''Invalid request: '' @
              (case err_detail e of
                 None \<Rightarrow> ''Unknown error''
               | Some m \<Rightarrow> if m \<noteq> [] then m else ''Unknown error''))
          else Error (''Airtable API error: '' @ err_message e))"

definition request_config ::
  "string \<Rightarrow> 'd option \<Rightarrow> credentials \<Rightarrow> string option \<Rightarrow> int \<Rightarrow> 'd config" where
  "request_config url data creds meth timeout =
     \<lparr> cfg_method = (case meth of None \<Rightarrow> ''GET'' | Some m \<Rightarrow> m),
       cfg_url = url,
       cfg_authorization = authHeader creds,
       cfg_content_type = ''application/json'',
       cfg_timeout = timeout,
       cfg_data = data \<rparr>"

definition makeAirtableRequest ::
  "(nat \<Rightarrow> 'j response) \<Rightarrow> string \<Rightarrow> 'd option \<Rightarrow> credentials \<Rightarrow> string option \<Rightarrow> int
     \<Rightarrow> int \<Rightarrow> int \<Rightarrow> (js_error + 'j) \<times> 'd event list" where
  "makeAirtableRequest http url data creds meth timeout maxRetries retryDelay =
     (case attempt_loop http (request_config url data creds meth timeout)
             maxRetries retryDelay 0 None of
        (Returned d, tr) \<Rightarrow> (Inr d, tr)
      | (Exhausted lastError, tr) \<Rightarrow> (Inl (classify lastError), tr))"

subsection \<open>Vocabulary for statements about a run of the executor\<close>

text \<open>A rate-limited attempt; the events of one attempt that is retried (the request,
  the warning, the backoff sleep) and of \<open>k\<close> such attempts from attempt \<open>a\<close> on; the
  number of requests and the sleeps of a trace.\<close>

definition is_429 :: "'j response \<Rightarrow> bool" where
  "is_429 r = (case r of Success d \<Rightarrow> False | Failure e \<Rightarrow> err_status e = Some 429)"

definition backoff_round :: "'d config \<Rightarrow> int \<Rightarrow> nat \<Rightarrow> 'd event list" where
  "backoff_round config retryDelay i =
     [Request config,
      Warn (retryDelay * 2 ^ i),
      Sleep (retryDelay * 2 ^ i)]"

definition backoff_rounds :: "'d config \<Rightarrow> int \<Rightarrow> nat \<Rightarrow> nat \<Rightarrow> 'd event list" where
  "backoff_rounds config retryDelay a k = concat (map (backoff_round config retryDelay) [a..<a + k])"

fun attempts :: "'d event list \<Rightarrow> nat" where
  "attempts [] = 0"
| "attempts (Request c # tr) = Suc (attempts tr)"
| "attempts (Warn m # tr) = attempts tr"
| "attempts (Sleep w # tr) = attempts tr"

fun sleeps :: "'d event list \<Rightarrow> int list" where
  "sleeps [] = []"
| "sleeps (Request c # tr) = sleeps tr"
| "sleeps (Warn m # tr) = sleeps tr"
| "sleeps (Sleep w # tr) = w # sleeps tr"

definition final_exit :: "'j response \<Rightarrow> 'j loop_exit" where
  "final_exit r = (case r of Success d \<Rightarrow> Returned d | Failure e \<Rightarrow> Exhausted (Some e))"

definition outcome_of :: "'j response \<Rightarrow> js_error + 'j" where
  "outcome_of r = (case r of Success d \<Rightarrow> Inr d | Failure e \<Rightarrow> Inl (classify (Some e)))"

text \<open>The statuses with a message of their own in the classification.\<close>

definition specific_status :: "nat option \<Rightarrow> bool" where
  "specific_status s = (s = Some 401 \<or> s = Some 403 \<or> s = Some 404 \<or> s = Some 422)"

section \<open>The polling trigger\<close>

text \<open>A record of a list response, and the item emitted for it:
  \<open>{ json: { recordId, fields, createdTime } }\<close>.\<close>

record 'f airtable_record =
  rec_id :: string
  rec_fields :: 'f
  rec_createdTime :: string

record 'f emitted_json =
  recordId :: string
  item_fields :: 'f
  createdTime :: string

record 'f item =
  json :: "'f emitted_json"

text \<open>The body of a list response: \<open>response.data.records\<close>, which may be missing.\<close>

type_synonym 'f poll_response = "'f airtable_record list option response"

text \<open>The poll cycles a trigger runs: the one started at activation and the ones the
  timer starts. They differ in the label under which a failure is logged.\<close>

datatype cycle = InitialPoll | TimerTick

text \<open>The state of one trigger instance: the watermark \<open>lastCheck\<close> (milliseconds), the
  interval timer (\<open>Some period\<close> while it is set, with the period in milliseconds it fires
  at, \<open>None\<close> once cleared), the cycles whose HTTP request is in flight, the batches
  emitted and the error log.\<close>

record 'f trigger_state =
  lastCheck :: int
  timer :: "int option"
  pending :: "cycle list"
  emitted :: "'f item list list"
  log :: "(string \<times> string) list"

definition project :: "'f airtable_record \<Rightarrow> 'f item" where
  "project r = \<lparr> json = \<lparr> recordId = rec_id r, item_fields = rec_fields r,
                           createdTime = rec_createdTime r \<rparr> \<rparr>"

text \<open>\<open>new Date(record.createdTime) > lastCheck\<close>. \<open>parseDate\<close> is the runtime's reading
  of a date string as milliseconds, \<open>None\<close> for an invalid date (which compares false).\<close>

definition is_new :: "(string \<Rightarrow> int option) \<Rightarrow> int \<Rightarrow> 'f airtable_record \<Rightarrow> bool" where
  "is_new parseDate watermark r =
     (case parseDate (rec_createdTime r) of
        None \<Rightarrow> False
      | Some recordTime \<Rightarrow> recordTime > watermark)"

text \<open>\<open>pollRecords\<close> from the point where the request settles, at time \<open>now\<close>: the
  records are filtered against the watermark as it is then, and the watermark moves to
  \<open>now\<close>; a failure is logged and thrown again. Before that point \<open>pollRecords\<close> only
  builds the URL and the header and sends the request, which changes nothing of the state;
  the outcome of the request is an input here.\<close>

definition pollRecords ::
  "(string \<Rightarrow> int option) \<Rightarrow> 'f trigger_state \<Rightarrow> 'f poll_response \<Rightarrow> int
     \<Rightarrow> (http_error + 'f item list) \<times> 'f trigger_state" where
  "pollRecords parseDate st res now =
     (case res of
        Failure error \<Rightarrow>
          (Inl error, st\<lparr> log := log st @ [(''Airtable Trigger Error:'', err_message error)] \<rparr>)
      | Success data \<Rightarrow>
          (let records = (case data of None \<Rightarrow> [] | Some rs \<Rightarrow> rs);
               newRecords = filter (is_new parseDate (lastCheck st)) records
           in (Inr (if length newRecords > 0 then map project newRecords else []),
               st\<lparr> lastCheck := now \<rparr>)))"

definition cycle_label :: "cycle \<Rightarrow> string" where
  "cycle_label c = (case c of InitialPoll \<Rightarrow> ''Initial poll error:'' | TimerTick \<Rightarrow> ''Polling error:'')"

text \<open>The \<open>try { records = await pollRecords(); if (records.length > 0) emit } catch { log }\<close>
  of the timer callback and of the initial poll.\<close>

definition poll_cycle ::
  "(string \<Rightarrow> int option) \<Rightarrow> cycle \<Rightarrow> 'f trigger_state \<Rightarrow> 'f poll_response \<Rightarrow> int
     \<Rightarrow> 'f trigger_state" where
  "poll_cycle parseDate c st res now =
     (case pollRecords parseDate st res now of
        (Inr records, st') \<Rightarrow>
          if length records > 0 then st'\<lparr> emitted := emitted st' @ [records] \<rparr> else st'
      | (Inl error, st') \<Rightarrow> st'\<lparr> log := log st' @ [(cycle_label c, err_message error)] \<rparr>)"

definition pollInterval :: "int \<Rightarrow> int" where
  "pollInterval pollingInterval = max (pollingInterval * 1000) 30000"

text \<open>The period \<open>setInterval\<close> runs with for a delay it is given: the runtime replaces a
  delay that is not between 1 and \<open>2^31 - 1\<close> milliseconds by 1 millisecond.\<close>

definition setInterval_period :: "int \<Rightarrow> int" where
  "setInterval_period delay = (if 1 \<le> delay \<and> delay \<le> 2147483647 then delay else 1)"

definition is_set :: "string option \<Rightarrow> bool" where
  "is_set v = (case v of None \<Rightarrow> False | Some s \<Rightarrow> s \<noteq> [])"

text \<open>\<open>trigger\<close> up to the first suspension: the credentials check, the watermark set to
  the activation time \<open>now\<close>, the interval timer set, and the initial poll started.\<close>

definition trigger :: "int \<Rightarrow> credentials option \<Rightarrow> int \<Rightarrow> js_error + 'f trigger_state" where
  "trigger pollingInterval creds now =
     (case creds of
        None \<Rightarrow> Inl (Error ''Airtable credentials are required'')
      | Some c \<Rightarrow>
          if \<not> is_set (accessToken c) \<and> \<not> is_set (apiKey c)
          then Inl (Error ''Airtable credentials are required'')
          else Inr \<lparr> lastCheck = now,
                     timer = Some (setInterval_period (pollInterval pollingInterval)),
                     pending = [InitialPoll], emitted = [], log = [] \<rparr>)"

text \<open>What happens to a running trigger: the timer fires, the request of a cycle in
  flight settles at some time, or the cleanup function returned by \<open>trigger\<close> is called.
  The timer is the runtime's: while it is set a firing starts a cycle, and once
  \<open>clearInterval\<close> has run no callback of it runs any more.\<close>

datatype 'f trigger_event =
    Tick
  | Responded cycle "'f poll_response" int
  | Cancel

fun trigger_step ::
  "(string \<Rightarrow> int option) \<Rightarrow> 'f trigger_state \<Rightarrow> 'f trigger_event \<Rightarrow> 'f trigger_state" where
  "trigger_step parseDate st Tick =
     (if timer st \<noteq> None then st\<lparr> pending := pending st @ [TimerTick] \<rparr> else st)"
| "trigger_step parseDate st (Responded c res now) =
     (if c \<in> set (pending st)
      then poll_cycle parseDate c (st\<lparr> pending := remove1 c (pending st) \<rparr>) res now
      else st)"
| "trigger_step parseDate st Cancel = st\<lparr> timer := None \<rparr>"

definition run_trigger ::
  "(string \<Rightarrow> int option) \<Rightarrow> 'f trigger_state \<Rightarrow> 'f trigger_event list \<Rightarrow> 'f trigger_state" where
  "run_trigger parseDate st evs = foldl (trigger_step parseDate) st evs"

text \<open>The records of a response body, and those among them that are new with
  respect to a watermark.\<close>

definition records_of :: "'f airtable_record list option \<Rightarrow> 'f airtable_record list" where
  "records_of data = (case data of None \<Rightarrow> [] | Some rs \<Rightarrow> rs)"

text \<open>The events that are a firing of the timer or the failure of a request.\<close>

definition failed_or_tick :: "'f trigger_event \<Rightarrow> bool" where
  "failed_or_tick ev =
     (case ev of
        Tick \<Rightarrow> True
      | Responded c res now \<Rightarrow> (case res of Failure e \<Rightarrow> True | Success data \<Rightarrow> False)
      | Cancel \<Rightarrow> False)"

definition new_records ::
  "(string \<Rightarrow> int option) \<Rightarrow> int \<Rightarrow> 'f airtable_record list option \<Rightarrow> 'f airtable_record list" where
  "new_records parseDate watermark data = filter (is_new parseDate watermark) (records_of data)"

section \<open>Template substitution: \<open>resolveValue\<close>\<close>

text \<open>The class \<open>\w\<close> of the regular expression: \<open>[A-Za-z0-9_]\<close>.\<close>

definition is_word :: "char \<Rightarrow> bool" where
  "is_word c \<longleftrightarrow>
     c \<in> set ''abcdefghijklmnopqrstuvwxyzABCDEFGHIJKLMNOPQRSTUVWXYZ0123456789_''"

fun strip_prefix :: "string \<Rightarrow> string \<Rightarrow> string option" where
  "strip_prefix [] s = Some s"
| "strip_prefix (p # ps) [] = None"
| "strip_prefix (p # ps) (c # cs) = (if p = c then strip_prefix ps cs else None)"

text \<open>A match of \<open>/\{\{json\.(\w+)\}\}/\<close> at the start of the string: the captured key
  and the rest of the string after the match. The greedy \<open>\w+\<close> takes every word
  character; giving some back never helps, for the next character must be \<open>}\<close>.\<close>

definition match_placeholder :: "string \<Rightarrow> (string \<times> string) option" where
  "match_placeholder s =
     (case strip_prefix ''{{json.'' s of
        None \<Rightarrow> None
      | Some r \<Rightarrow>
          if takeWhile is_word r = [] then None
          else (case strip_prefix ''}}'' (dropWhile is_word r) of
                  None \<Rightarrow> None
                | Some rest \<Rightarrow> Some (takeWhile is_word r, rest)))"

lemma strip_prefix_Some: "strip_prefix p s = Some r \<longleftrightarrow> s = p @ r"
  by (induction p s rule: strip_prefix.induct) auto

lemma match_placeholder_shorter:
  "match_placeholder s = Some (key, rest) \<Longrightarrow> length rest < length s"
proof -
  assume m: "match_placeholder s = Some (key, rest)"
  then obtain r where r: "s = ''{{json.'' @ r" "dropWhile is_word r = ''}}'' @ rest"
    by (auto simp: match_placeholder_def strip_prefix_Some split: option.splits if_splits)
  have "length (dropWhile is_word r) \<le> length r" by (rule length_dropWhile_le)
  then show ?thesis using r by simp
qed

text \<open>\<open>value.replace(/.../g, f)\<close>: scanning from the left, each match is replaced by
  what the callback returns for its key and the scan goes on after the match; a character
  where no match starts is copied.\<close>

function replace_placeholders :: "(string \<Rightarrow> string) \<Rightarrow> string \<Rightarrow> string" where
  "replace_placeholders f [] = []"
| "replace_placeholders f (c # cs) =
     (case match_placeholder (c # cs) of
        Some (key, rest) \<Rightarrow> f key @ replace_placeholders f rest
      | None \<Rightarrow> c # replace_placeholders f cs)"
  by pat_completeness auto

termination replace_placeholders
  by (relation "measure (\<lambda>(f, s). length s)") (auto dest: match_placeholder_shorter)

text \<open>\<open>value.includes(p)\<close>.\<close>

fun includes_str :: "string \<Rightarrow> string \<Rightarrow> bool" where
  "includes_str [] p = (p = [])"
| "includes_str (c # cs) p = (strip_prefix p (c # cs) \<noteq> None \<or> includes_str cs p)"

text \<open>The callback \<open>(match, key) => context[key] || ""\<close>, whose result \<open>replace\<close> turns
  into a string. The context is a plain object, given by the properties of its own; the
  read \<open>context[key]\<close> also finds what the object inherits.\<close>

definition lookup_or_empty :: "(string \<rightharpoonup> jsval) \<Rightarrow> string \<Rightarrow> string" where
  "lookup_or_empty context key =
     to_string (if truthy (get_property context key) then get_property context key else JStr [])"

text \<open>\<open>resolveValue(value, context = {})\<close>; \<open>None\<close> is a context that is not passed, for
  which the default \<open>{}\<close> stands: an object with no property of its own.\<close>

definition resolveValue :: "jsval \<Rightarrow> (string \<rightharpoonup> jsval) option \<Rightarrow> jsval" where
  "resolveValue v ctx =
     (let context = (case ctx of None \<Rightarrow> Map.empty | Some m \<Rightarrow> m) in
      case v of
        JStr s \<Rightarrow>
          if includes_str s ''{{''
          then JStr (replace_placeholders (lookup_or_empty context) s)
          else v
      | _ \<Rightarrow> v)"

text \<open>The placeholder for a key, the keys the pattern accepts, and a string with an
  occurrence of a placeholder: as a statement about its shape, and as a search.\<close>

definition placeholder :: "string \<Rightarrow> string" where
  "placeholder key = ''{{json.'' @ key @ ''}}''"

definition valid_key :: "string \<Rightarrow> bool" where
  "valid_key key \<longleftrightarrow> key \<noteq> [] \<and> list_all is_word key"

definition has_placeholder :: "string \<Rightarrow> bool" where
  "has_placeholder s \<longleftrightarrow> (\<exists>pre key post. valid_key key \<and> s = pre @ placeholder key @ post)"

fun has_match :: "string \<Rightarrow> bool" where
  "has_match [] = False"
| "has_match (c # cs) = (match_placeholder (c # cs) \<noteq> None \<or> has_match cs)"

text \<open>A string cut at its placeholders: pieces of text, each followed by the key of a
  placeholder, and the text after the last one; \<open>fill g\<close> puts \<open>g key\<close> in the place of
  each key. The pieces are plain when no placeholder occurs inside them.\<close>

fun fill :: "(string \<Rightarrow> string) \<Rightarrow> (string \<times> string) list \<Rightarrow> string \<Rightarrow> string" where
  "fill g [] rest = rest"
| "fill g ((pre, key) # segs) rest = pre @ g key @ fill g segs rest"

definition plain_segments :: "(string \<times> string) list \<Rightarrow> string \<Rightarrow> bool" where
  "plain_segments segs rest \<longleftrightarrow>
     list_all (\<lambda>(pre, key). \<not> has_placeholder pre \<and> valid_key key) segs \<and> \<not> has_placeholder rest"

section \<open>Sample values\<close>

text \<open>Failures, credentials, a date reader, records, trigger states and a context for
  the concrete runs below.\<close>

definition rate_limited :: http_error where
  "rate_limited = \<lparr> err_status = Some 429, err_detail = None,
                     err_message = ''Request failed with status code 429'' \<rparr>"

definition not_found :: http_error where
  "not_found = \<lparr> err_status = Some 404, err_detail = None,
                  err_message = ''Request failed with status code 404'' \<rparr>"

definition timed_out :: http_error where
  "timed_out = \<lparr> err_status = None, err_detail = None,
                  err_message = ''timeout of 30000ms exceeded'' \<rparr>"

definition pat_credentials :: credentials where
  "pat_credentials = \<lparr> authenticationType = Some ''pat'', accessToken = Some ''patXYZ'',
                        apiKey = None \<rparr>"

definition unprocessable :: http_error where
  "unprocessable = \<lparr> err_status = Some 422, err_detail = Some ''Unknown field name: X'',
                      err_message = ''Request failed with status code 422'' \<rparr>"

definition once_limited_then :: "'j response \<Rightarrow> nat \<Rightarrow> 'j response" where
  "once_limited_then r j = (if j = 0 then Failure rate_limited else r)"

definition legacy_credentials :: credentials where
  "legacy_credentials = \<lparr> authenticationType = Some ''apiKey'', accessToken = None,
                           apiKey = Some ''keyABC'' \<rparr>"

definition sample_parse :: "string \<Rightarrow> int option" where
  "sample_parse s = map_of [(''T-1'', 999), (''T'', 1000), (''T+1'', 1001), (''T+5'', 1005)] s"

definition sample_record :: "string \<Rightarrow> string \<Rightarrow> jsval airtable_record" where
  "sample_record i t = \<lparr> rec_id = i, rec_fields = JObj [(''Name'', JStr ''A'')], rec_createdTime = t \<rparr>"

definition activated :: "jsval trigger_state" where
  "activated = \<lparr> lastCheck = 900, timer = Some 60000, pending = [InitialPoll], emitted = [],
                  log = [] \<rparr>"

definition polling :: "jsval trigger_state" where
  "polling = \<lparr> lastCheck = 1000, timer = Some 60000, pending = [TimerTick, TimerTick],
                emitted = [], log = [] \<rparr>"

definition waiting :: "jsval trigger_state" where
  "waiting = \<lparr> lastCheck = 1000, timer = Some 60000, pending = [TimerTick], emitted = [],
                log = [] \<rparr>"

definition four_records :: "jsval airtable_record list" where
  "four_records = [sample_record ''rec1'' ''T-1'', sample_record ''rec2'' ''T'',
                   sample_record ''rec3'' ''T+1'', sample_record ''rec4'' ''T+5'']"

definition sample_context :: "string \<rightharpoonup> jsval" where
  "sample_context = [''name'' \<mapsto> JStr ''Bob'', ''zero'' \<mapsto> JNum (Abs_safe_int 0),
                     ''off'' \<mapsto> JBool False, ''blank'' \<mapsto> JStr [],
                     ''n'' \<mapsto> JNum (Abs_safe_int 42)]"

section \<open>Properties of the request executor\<close>

subsection \<open>The attempt loop\<close>

declare attempt_loop.simps [simp del]

lemma prefix_trace_prefix_trace:
  "prefix_trace xs (prefix_trace ys p) = prefix_trace (xs @ ys) p"
  by (simp add: prefix_trace_def)

lemma prefix_trace_pair: "prefix_trace xs (r, tr) = (r, xs @ tr)"
  by (simp add: prefix_trace_def)

lemma backoff_rounds_0: "backoff_rounds c rd a 0 = []"
  by (simp add: backoff_rounds_def)

lemma backoff_rounds_Suc_left:
  "backoff_rounds c rd a (Suc k) = backoff_round c rd a @ backoff_rounds c rd (Suc a) k"
  by (simp add: backoff_rounds_def upt_rec)

lemma backoff_rounds_Suc_right:
  "backoff_rounds c rd a (Suc k) = backoff_rounds c rd a k @ backoff_round c rd (a + k)"
  by (simp add: backoff_rounds_def)

lemma attempt_loop_stop:
  assumes "int a \<le> mr" "\<not> is_429 (http a)"
  shows "attempt_loop http c mr rd a le = (final_exit (http a), [Request c])"
proof (cases "http a")
  case (Success d)
  then show ?thesis using assms(1)
    by (subst attempt_loop.simps) (simp add: final_exit_def)
next
  case (Failure e)
  then have "err_status e \<noteq> Some 429" using assms(2) by (simp add: is_429_def)
  then show ?thesis using assms(1) Failure
    by (subst attempt_loop.simps) (simp add: final_exit_def)
qed

lemma attempt_loop_past: "\<not> int a \<le> mr \<Longrightarrow> attempt_loop http c mr rd a le = (Exhausted le, [])"
  by (subst attempt_loop.simps) simp

lemma attempt_loop_last_429:
  assumes "int a = mr" "http a = Failure e" "err_status e = Some 429"
  shows "attempt_loop http c mr rd a le = (Exhausted (Some e), [Request c])"
  using assms
  by (subst attempt_loop.simps) (simp add: attempt_loop_past prefix_trace_pair)

lemma attempt_loop_retry:
  assumes "int a < mr" "is_429 (http a)"
  shows "\<exists>e. http a = Failure e \<and> attempt_loop http c mr rd a le =
           prefix_trace (backoff_round c rd a) (attempt_loop http c mr rd (Suc a) (Some e))"
  using assms
  by (subst attempt_loop.simps) (auto simp add: is_429_def backoff_round_def split: response.splits)

lemma attempt_loop_lastError_irrelevant:
  "int a \<le> mr \<Longrightarrow> attempt_loop http c mr rd a le = attempt_loop http c mr rd a le'"
  by (subst attempt_loop.simps, subst (2) attempt_loop.simps) simp

lemma attempt_loop_run_429:
  assumes "\<forall>j<k. is_429 (http (a + j))" "int (a + k) \<le> mr"
  shows "attempt_loop http c mr rd a le =
           prefix_trace (backoff_rounds c rd a k) (attempt_loop http c mr rd (a + k) le')"
  using assms
proof (induction k arbitrary: a le)
  case 0
  then show ?case
    using attempt_loop_lastError_irrelevant [of a mr http c rd le le']
    by (simp add: backoff_rounds_0 prefix_trace_def)
next
  case (Suc k)
  have "is_429 (http a)" using Suc.prems(1) [rule_format, of 0] by simp
  moreover have "int a < mr" using Suc.prems(2) by simp
  ultimately obtain e where e: "attempt_loop http c mr rd a le =
      prefix_trace (backoff_round c rd a) (attempt_loop http c mr rd (Suc a) (Some e))"
    using attempt_loop_retry by blast
  have "\<forall>j<k. is_429 (http (Suc a + j))"
    using Suc.prems(1) by (metis Suc_less_eq add_Suc_shift)
  moreover have "int (Suc a + k) \<le> mr" using Suc.prems(2) by simp
  ultimately have "attempt_loop http c mr rd (Suc a) (Some e) =
      prefix_trace (backoff_rounds c rd (Suc a) k) (attempt_loop http c mr rd (Suc a + k) le')"
    by (rule Suc.IH)
  then show ?case
    by (simp add: e prefix_trace_prefix_trace backoff_rounds_Suc_left)
qed

lemma attempt_loop_shape:
  assumes "int a \<le> mr"
  shows "\<exists>k. int (a + k) \<le> mr \<and> (\<forall>j<k. is_429 (http (a + j)))
            \<and> (is_429 (http (a + k)) \<longrightarrow> int (a + k) = mr)
            \<and> attempt_loop http c mr rd a le =
                (final_exit (http (a + k)), backoff_rounds c rd a k @ [Request c])"
  using assms
proof (induction "nat (mr - int a)" arbitrary: a le)
  case 0
  then have eq: "int a = mr" by simp
  show ?case
  proof (cases "is_429 (http a)")
    case True
    then obtain e where "http a = Failure e" "err_status e = Some 429"
      by (auto simp: is_429_def split: response.splits)
    then show ?thesis using eq attempt_loop_last_429 [of a mr http e c rd le]
      by (intro exI [of _ 0]) (simp add: final_exit_def backoff_rounds_0)
  next
    case False
    then show ?thesis using eq attempt_loop_stop [of a mr http c rd le]
      by (intro exI [of _ 0]) (simp add: backoff_rounds_0)
  qed
next
  case (Suc n)
  then have lt: "int a < mr" by simp
  show ?case
  proof (cases "is_429 (http a)")
    case False
    then show ?thesis using lt attempt_loop_stop [of a mr http c rd le]
      by (intro exI [of _ 0]) (simp add: backoff_rounds_0)
  next
    case True
    then obtain e where e: "attempt_loop http c mr rd a le =
      prefix_trace (backoff_round c rd a) (attempt_loop http c mr rd (Suc a) (Some e))"
      using lt attempt_loop_retry by blast
    have "n = nat (mr - int (Suc a))" using Suc.hyps(2) by simp
    moreover have "int (Suc a) \<le> mr" using lt by simp
    ultimately obtain k where k: "int (Suc a + k) \<le> mr" "\<forall>j<k. is_429 (http (Suc a + j))"
      "is_429 (http (Suc a + k)) \<longrightarrow> int (Suc a + k) = mr"
      "attempt_loop http c mr rd (Suc a) (Some e) =
                (final_exit (http (Suc a + k)), backoff_rounds c rd (Suc a) k @ [Request c])"
      using Suc.hyps(1) [of "Suc a" "Some e"] by blast
    have "\<forall>j<Suc k. is_429 (http (a + j))"
    proof (intro allI impI)
      fix j assume "j < Suc k"
      then show "is_429 (http (a + j))"
        using True k(2) by (cases j) auto
    qed
    then show ?thesis using k e
      by (intro exI [of _ "Suc k"]) (simp add: prefix_trace_pair backoff_rounds_Suc_left)
  qed
qed

lemma attempts_append: "attempts (xs @ ys) = attempts xs + attempts ys"
  by (induction xs rule: attempts.induct) auto

lemma sleeps_append: "sleeps (xs @ ys) = sleeps xs @ sleeps ys"
  by (induction xs rule: sleeps.induct) auto

lemma attempts_backoff_rounds: "attempts (backoff_rounds c rd a k) = k"
  by (induction k) (simp_all add: backoff_rounds_0 backoff_rounds_Suc_right attempts_append backoff_round_def)

lemma sleeps_backoff_rounds: "sleeps (backoff_rounds c rd a k) = map (\<lambda>i. rd * 2 ^ i) [a..<a + k]"
  by (induction k) (simp_all add: backoff_rounds_0 backoff_rounds_Suc_right sleeps_append backoff_round_def)



lemma attempt_loop_run:
  assumes "int m \<le> mr" "\<forall>j<m. is_429 (http j)" "is_429 (http m) \<longrightarrow> int m = mr"
  shows "attempt_loop http c mr rd 0 None =
           (final_exit (http m), backoff_rounds c rd 0 m @ [Request c])"
proof -
  have run: "attempt_loop http c mr rd 0 None =
      prefix_trace (backoff_rounds c rd 0 m) (attempt_loop http c mr rd m None)"
    using attempt_loop_run_429 [of m http 0 mr c rd None None] assms(1,2) by simp
  have "attempt_loop http c mr rd m None = (final_exit (http m), [Request c])"
  proof (cases "is_429 (http m)")
    case False
    then show ?thesis using assms(1) by (rule attempt_loop_stop [rotated])
  next
    case True
    then obtain e where e: "http m = Failure e" "err_status e = Some 429"
      by (auto simp: is_429_def split: response.splits)
    moreover have "int m = mr" using True assms(3) by simp
    ultimately show ?thesis
      using attempt_loop_last_429 [of m mr http e c rd None] by (simp add: final_exit_def)
  qed
  then show ?thesis by (simp add: run prefix_trace_pair)
qed

lemma makeAirtableRequest_of_loop:
  assumes "attempt_loop http (request_config url data creds meth timeout) mr rd 0 None =
             (final_exit r, tr)"
  shows "makeAirtableRequest http url data creds meth timeout mr rd = (outcome_of r, tr)"
  using assms by (simp add: makeAirtableRequest_def final_exit_def outcome_of_def split: response.splits)

lemma makeAirtableRequest_run:
  assumes "int m \<le> mr" "\<forall>j<m. is_429 (http j)" "is_429 (http m) \<longrightarrow> int m = mr"
  shows "makeAirtableRequest http url data creds meth timeout mr rd =
           (outcome_of (http m),
            backoff_rounds (request_config url data creds meth timeout) rd 0 m
              @ [Request (request_config url data creds meth timeout)])"
  using assms by (intro makeAirtableRequest_of_loop attempt_loop_run)

lemma makeAirtableRequest_shape:
  assumes "0 \<le> mr"
  shows "\<exists>m. int m \<le> mr \<and> (\<forall>j<m. is_429 (http j)) \<and> (is_429 (http m) \<longrightarrow> int m = mr) \<and>
           makeAirtableRequest http url data creds meth timeout mr rd =
             (outcome_of (http m),
              backoff_rounds (request_config url data creds meth timeout) rd 0 m
                @ [Request (request_config url data creds meth timeout)])"
proof -
  obtain k where "int (0 + k) \<le> mr" "\<forall>j<k. is_429 (http (0 + j))"
      "is_429 (http (0 + k)) \<longrightarrow> int (0 + k) = mr"
      "attempt_loop http (request_config url data creds meth timeout) mr rd 0 None =
         (final_exit (http (0 + k)),
          backoff_rounds (request_config url data creds meth timeout) rd 0 k
            @ [Request (request_config url data creds meth timeout)])"
    using attempt_loop_shape [of 0 mr http "request_config url data creds meth timeout" rd None]
      assms by auto
  then show ?thesis
    by (intro exI [of _ k]) (simp add: makeAirtableRequest_of_loop)
qed

lemma makeAirtableRequest_no_attempt:
  assumes "mr < 0"
  shows "makeAirtableRequest http url data creds meth timeout mr rd = (Inl TypeError, [])"
  using assms by (simp add: makeAirtableRequest_def attempt_loop_past classify_def)

lemma attempts_run_trace: "attempts (backoff_rounds c rd 0 m @ [Request c]) = Suc m"
  by (simp add: attempts_append attempts_backoff_rounds)

lemma sleeps_run_trace:
  "sleeps (backoff_rounds c rd 0 m @ [Request c]) = map (\<lambda>i. rd * 2 ^ i) [0..<m]"
  by (simp add: sleeps_append sleeps_backoff_rounds)

lemma classify_429: "err_status e = Some 429 \<Longrightarrow>
    classify (Some e) = Error (''Airtable API error: '' @ err_message e)"
  by (simp add: classify_def)

subsection \<open>Retries on rate limiting\<close>

text \<open>
  Claim C1, as stated, fails: the failure thrown after \<open>n + 1\<close> rate-limited attempts is
  not classified as a rate limit. The classification has no case for status 429, and the
  error it throws is the one it throws for a failure with status 500 and the same message.
\<close>

theorem rate_limit_exhausted_not_classified:
  "fst (makeAirtableRequest (\<lambda>j. Failure rate_limited :: jsval response) ''u'' (None :: jsval option)
          pat_credentials None 30000 2 1000)
     = Inl (Error ''Airtable API error: Request failed with status code 429'') \<and>
   fst (makeAirtableRequest
          (\<lambda>j. Failure (rate_limited\<lparr> err_status := Some 500 \<rparr>) :: jsval response) ''u''
          (None :: jsval option) pat_credentials None 30000 2 1000)
     = Inl (Error ''Airtable API error: Request failed with status code 429'')"
proof -
  have a: "makeAirtableRequest (\<lambda>j. Failure rate_limited :: jsval response) ''u'' (None :: jsval option)
          pat_credentials None 30000 2 1000 =
       (outcome_of (Failure rate_limited),
        backoff_rounds (request_config ''u'' None pat_credentials None 30000) 1000 0 2
         @ [Request (request_config ''u'' None pat_credentials None 30000)])"
    using makeAirtableRequest_run [where m = 2 and mr = 2
        and http = "\<lambda>j. Failure rate_limited :: jsval response"]
    by (simp add: is_429_def rate_limited_def)
  have b: "makeAirtableRequest
          (\<lambda>j. Failure (rate_limited\<lparr> err_status := Some 500 \<rparr>) :: jsval response) ''u''
          (None :: jsval option) pat_credentials None 30000 2 1000 =
       (outcome_of (Failure (rate_limited\<lparr> err_status := Some 500 \<rparr>)),
        backoff_rounds (request_config ''u'' None pat_credentials None 30000) 1000 0 0
         @ [Request (request_config ''u'' None pat_credentials None 30000)])"
    using makeAirtableRequest_run [where m = 0 and mr = 2
        and http = "\<lambda>j. Failure (rate_limited\<lparr> err_status := Some 500 \<rparr>) :: jsval response"]
    by (simp add: is_429_def)
  have a': "fst (makeAirtableRequest (\<lambda>j. Failure rate_limited :: jsval response) ''u''
          (None :: jsval option) pat_credentials None 30000 2 1000)
     = Inl (Error ''Airtable API error: Request failed with status code 429'')"
    using a by (simp add: outcome_of_def classify_def rate_limited_def)
  have b': "fst (makeAirtableRequest
          (\<lambda>j. Failure (rate_limited\<lparr> err_status := Some 500 \<rparr>) :: jsval response) ''u''
          (None :: jsval option) pat_credentials None 30000 2 1000)
     = Inl (Error ''Airtable API error: Request failed with status code 429'')"
    using b by (simp add: outcome_of_def classify_def rate_limited_def)
  show ?thesis using a' b' by (rule conjI)
qed

text \<open>
  Claim C1, amended. With \<open>maxRetries = n\<close>: when the attempts \<open>0..n\<close> all fail with status
  429, the executor makes exactly \<open>n + 1\<close> requests and throws the generic error
  \<open>Airtable API error: <message>\<close> built from the message of the last failure, the error
  any failure without a message of its own in the classification gets for that message;
  when instead the attempts before \<open>k \<le> n\<close> are rate limited and attempt \<open>k\<close> resolves, the
  response data is returned and exactly \<open>k + 1\<close> requests were made.
\<close>

theorem makeAirtableRequest_rate_limit_attempts:
  fixes n :: nat
  shows
  "((\<forall>j<n. is_429 (http j)) \<and> http n = Failure e \<and> err_status e = Some 429 \<longrightarrow>
       fst (makeAirtableRequest http url data creds meth timeout (int n) retryDelay)
         = Inl (Error (''Airtable API error: '' @ err_message e)) \<and>
       attempts (snd (makeAirtableRequest http url data creds meth timeout (int n) retryDelay))
         = n + 1 \<and>
       (\<not> specific_status (err_status e') \<and> err_message e' = err_message e \<longrightarrow>
          fst (makeAirtableRequest http url data creds meth timeout (int n) retryDelay)
            = Inl (classify (Some e')))) \<and>
   (k \<le> n \<and> (\<forall>j<k. is_429 (http j)) \<and> http k = Success d \<longrightarrow>
       fst (makeAirtableRequest http url data creds meth timeout (int n) retryDelay) = Inr d \<and>
       attempts (snd (makeAirtableRequest http url data creds meth timeout (int n) retryDelay))
         = k + 1)"
proof (intro conjI impI)
  assume a: "(\<forall>j<n. is_429 (http j)) \<and> http n = Failure e \<and> err_status e = Some 429"
  then have run: "makeAirtableRequest http url data creds meth timeout (int n) retryDelay =
           (outcome_of (http n),
            backoff_rounds (request_config url data creds meth timeout) retryDelay 0 n
              @ [Request (request_config url data creds meth timeout)])"
    by (intro makeAirtableRequest_run) simp_all
  show thrown: "fst (makeAirtableRequest http url data creds meth timeout (int n) retryDelay)
         = Inl (Error (''Airtable API error: '' @ err_message e))"
    using a by (simp add: run outcome_of_def classify_429)
  show "attempts (snd (makeAirtableRequest http url data creds meth timeout (int n) retryDelay))
         = n + 1"
    by (simp add: run attempts_run_trace)
  assume "\<not> specific_status (err_status e') \<and> err_message e' = err_message e"
  then have "classify (Some e') = Error (''Airtable API error: '' @ err_message e)"
    by (simp add: classify_def specific_status_def)
  then show "fst (makeAirtableRequest http url data creds meth timeout (int n) retryDelay)
            = Inl (classify (Some e'))"
    using thrown by simp
next
  assume a: "k \<le> n \<and> (\<forall>j<k. is_429 (http j)) \<and> http k = Success d"
  then have run: "makeAirtableRequest http url data creds meth timeout (int n) retryDelay =
           (outcome_of (http k),
            backoff_rounds (request_config url data creds meth timeout) retryDelay 0 k
              @ [Request (request_config url data creds meth timeout)])"
    by (intro makeAirtableRequest_run) (simp_all add: is_429_def)
  show "fst (makeAirtableRequest http url data creds meth timeout (int n) retryDelay) = Inr d"
    using a by (simp add: run outcome_of_def)
  show "attempts (snd (makeAirtableRequest http url data creds meth timeout (int n) retryDelay))
         = k + 1"
    by (simp add: run attempts_run_trace)
qed

theorem makeAirtableRequest_rate_limit_attempts_witness:
  "fst (makeAirtableRequest (\<lambda>j. Failure rate_limited :: jsval response) ''u'' (None :: jsval option)
          pat_credentials None 30000 (int 2) 1000)
     = Inl (Error ''Airtable API error: Request failed with status code 429'') \<and>
   attempts (snd (makeAirtableRequest (\<lambda>j. Failure rate_limited :: jsval response) ''u''
          (None :: jsval option) pat_credentials None 30000 (int 2) 1000)) = 3 \<and>
   fst (makeAirtableRequest (\<lambda>j. Failure rate_limited :: jsval response) ''u'' (None :: jsval option)
          pat_credentials None 30000 (int 2) 1000)
     = Inl (classify (Some (rate_limited\<lparr> err_status := None \<rparr>))) \<and>
   fst (makeAirtableRequest (once_limited_then (Success (JStr ''ok''))) ''u''
          (None :: jsval option) pat_credentials None 30000 (int 2) 1000) = Inr (JStr ''ok'') \<and>
   attempts (snd (makeAirtableRequest (once_limited_then (Success (JStr ''ok'')))
          ''u'' (None :: jsval option) pat_credentials None 30000 (int 2) 1000)) = 2"
proof -
  have all: "\<forall>j<2. is_429 (Failure rate_limited :: jsval response)"
    "err_status rate_limited = Some 429"
    "err_message rate_limited = ''Request failed with status code 429''"
    "\<not> specific_status (err_status (rate_limited\<lparr> err_status := None \<rparr>))"
    "err_message (rate_limited\<lparr> err_status := None \<rparr>) = err_message rate_limited"
    by (simp_all add: is_429_def rate_limited_def specific_status_def)
  have one: "(1 :: nat) \<le> 2" "\<forall>j<1. is_429 (once_limited_then (Success (JStr ''ok'')) j)"
    "once_limited_then (Success (JStr ''ok'')) 1 = Success (JStr ''ok'')"
    by (simp_all add: is_429_def once_limited_then_def rate_limited_def)
  note exhausted = makeAirtableRequest_rate_limit_attempts [where n = 2
      and http = "\<lambda>j. Failure rate_limited :: jsval response" and e = rate_limited
      and e' = "rate_limited\<lparr> err_status := None \<rparr>" and k = 3 and d = "JStr ''ok''"
      and url = "''u''" and data = "None :: jsval option"
      and creds = pat_credentials and meth = None and timeout = 30000 and retryDelay = 1000]
  note succeeded = makeAirtableRequest_rate_limit_attempts [where n = 2
      and http = "once_limited_then (Success (JStr ''ok''))" and e = rate_limited
      and e' = rate_limited and k = 1 and d = "JStr ''ok''"
      and url = "''u''" and data = "None :: jsval option"
      and creds = pat_credentials and meth = None and timeout = 30000 and retryDelay = 1000]
  have a: "fst (makeAirtableRequest (\<lambda>j. Failure rate_limited :: jsval response) ''u''
          (None :: jsval option) pat_credentials None 30000 (int 2) 1000)
       = Inl (Error (''Airtable API error: '' @ err_message rate_limited)) \<and>
     attempts (snd (makeAirtableRequest (\<lambda>j. Failure rate_limited :: jsval response) ''u''
          (None :: jsval option) pat_credentials None 30000 (int 2) 1000)) = 2 + 1 \<and>
     fst (makeAirtableRequest (\<lambda>j. Failure rate_limited :: jsval response) ''u'' (None :: jsval option)
          pat_credentials None 30000 (int 2) 1000)
       = Inl (classify (Some (rate_limited\<lparr> err_status := None \<rparr>)))"
    using exhausted all by blast
  have b: "fst (makeAirtableRequest (once_limited_then (Success (JStr ''ok''))) ''u''
          (None :: jsval option) pat_credentials None 30000 (int 2) 1000) = Inr (JStr ''ok'') \<and>
     attempts (snd (makeAirtableRequest (once_limited_then (Success (JStr ''ok'')))
          ''u'' (None :: jsval option) pat_credentials None 30000 (int 2) 1000)) = 1 + 1"
    using succeeded one by blast
  show ?thesis using a b all(3) by (elim conjE) (intro conjI; simp)
qed

text \<open>
  Claim C2. A failure whose status is not 429 (also one with no status at all, as a
  refused connection or a timeout) at attempt \<open>j\<close> ends the run: exactly \<open>j + 1\<close> requests
  were made, the only sleeps are the \<open>j\<close> backoffs of the rate-limited attempts before it,
  the trace ends with the failed request (no sleep follows it), and the classified error
  of that failure is thrown.
\<close>

theorem makeAirtableRequest_no_retry_on_other_failure:
  assumes "int j \<le> maxRetries" and "\<forall>i<j. is_429 (http i)"
    and "http j = Failure e" and "err_status e \<noteq> Some 429"
  shows "fst (makeAirtableRequest http url data creds meth timeout maxRetries retryDelay)
           = Inl (classify (Some e)) \<and>
         (\<exists>msg. classify (Some e) = Error msg) \<and>
         attempts (snd (makeAirtableRequest http url data creds meth timeout maxRetries retryDelay))
           = j + 1 \<and>
         sleeps (snd (makeAirtableRequest http url data creds meth timeout maxRetries retryDelay))
           = map (\<lambda>i. retryDelay * 2 ^ i) [0..<j] \<and>
         last (snd (makeAirtableRequest http url data creds meth timeout maxRetries retryDelay))
           = Request (request_config url data creds meth timeout)"
proof -
  have "\<not> is_429 (http j)" using assms(3,4) by (simp add: is_429_def)
  then have run: "makeAirtableRequest http url data creds meth timeout maxRetries retryDelay =
           (outcome_of (http j),
            backoff_rounds (request_config url data creds meth timeout) retryDelay 0 j
              @ [Request (request_config url data creds meth timeout)])"
    using assms(1,2) by (intro makeAirtableRequest_run) simp_all
  have "\<exists>msg. classify (Some e) = Error msg"
    by (simp add: classify_def)
  then show ?thesis
    using assms(3) by (simp add: run outcome_of_def attempts_run_trace sleeps_run_trace)
qed

theorem makeAirtableRequest_no_retry_on_other_failure_witness:
  "fst (makeAirtableRequest (\<lambda>j. Failure not_found :: jsval response) ''u'' (None :: jsval option)
          pat_credentials None 30000 3 1000)
     = Inl (Error ''Resource not found. Check your base ID, table name, or record ID.'') \<and>
   attempts (snd (makeAirtableRequest (\<lambda>j. Failure not_found :: jsval response) ''u''
          (None :: jsval option) pat_credentials None 30000 3 1000)) = 1 \<and>
   sleeps (snd (makeAirtableRequest (\<lambda>j. Failure not_found :: jsval response) ''u''
          (None :: jsval option) pat_credentials None 30000 3 1000)) = [] \<and>
   fst (makeAirtableRequest (\<lambda>j. if j < 2 then Failure rate_limited else Failure timed_out :: jsval response)
          ''u'' (None :: jsval option) pat_credentials None 30000 3 1000)
     = Inl (Error ''Airtable API error: timeout of 30000ms exceeded'') \<and>
   attempts (snd (makeAirtableRequest
          (\<lambda>j. if j < 2 then Failure rate_limited else Failure timed_out :: jsval response)
          ''u'' (None :: jsval option) pat_credentials None 30000 3 1000)) = 3 \<and>
   sleeps (snd (makeAirtableRequest
          (\<lambda>j. if j < 2 then Failure rate_limited else Failure timed_out :: jsval response)
          ''u'' (None :: jsval option) pat_credentials None 30000 3 1000)) = [1000, 2000]"
  using makeAirtableRequest_no_retry_on_other_failure [of 0 3 "\<lambda>j. Failure not_found :: jsval response" not_found "''u''"
      "None :: jsval option" pat_credentials None 30000 1000]
    makeAirtableRequest_no_retry_on_other_failure [of 2 3 "\<lambda>j. if j < 2 then Failure rate_limited else Failure timed_out :: jsval response"
      timed_out "''u''" "None :: jsval option" pat_credentials None 30000 1000]
  by (simp add: is_429_def rate_limited_def not_found_def timed_out_def classify_def upt_rec)

subsection \<open>Backoff delays\<close>

lemma length_sleeps_run_trace: "length (sleeps (backoff_rounds c rd 0 m @ [Request c])) = m"
  by (simp add: sleeps_run_trace)



subsection \<open>Classification of the last error\<close>

lemma run_trace_requests:
  "Request c' \<in> set (backoff_rounds c rd a k @ [Request c]) \<Longrightarrow> c' = c"
  by (auto simp: backoff_rounds_def backoff_round_def split: if_splits)




lemma sample_run_422:
  "makeAirtableRequest (once_limited_then (Failure unprocessable) :: nat \<Rightarrow> jsval response)
       ''u'' (None :: jsval option) pat_credentials None 30000 3 1000 =
     (Inl (Error ''Invalid request: Unknown field name: X''),
      backoff_rounds (request_config ''u'' None pat_credentials None 30000) 1000 0 1
         @ [Request (request_config ''u'' None pat_credentials None 30000)])"
  using makeAirtableRequest_run [where m = 1 and mr = 3
      and http = "once_limited_then (Failure unprocessable) :: nat \<Rightarrow> jsval response"]
  by (simp add: once_limited_then_def is_429_def rate_limited_def unprocessable_def outcome_of_def
        classify_def)




subsection \<open>The Authorization header\<close>

text \<open>
  Claim C8. Every request of the executor carries the header \<open>authHeader creds\<close>: the
  token prefixed with \<open>Bearer \<close> when \<open>authenticationType\<close> is \<open>pat\<close> (a token that is
  not set prints as \<open>undefined\<close> there), the token as it is otherwise; the token is
  \<open>accessToken\<close> when that is a non-empty string and \<open>apiKey\<close> otherwise.
\<close>

theorem makeAirtableRequest_authorization_header:
  "(Request cfg \<in> set (snd (makeAirtableRequest http url data creds meth timeout maxRetries retryDelay))
      \<longrightarrow> cfg_authorization cfg = authHeader creds) \<and>
   (authenticationType creds = Some ''pat'' \<and> token creds = Some t \<longrightarrow>
      authHeader creds = Some (''Bearer '' @ t)) \<and>
   (authenticationType creds = Some ''pat'' \<and> token creds = None \<longrightarrow>
      authHeader creds = Some ''Bearer undefined'') \<and>
   (authenticationType creds \<noteq> Some ''pat'' \<longrightarrow> authHeader creds = token creds) \<and>
   (accessToken creds = Some a \<and> a \<noteq> [] \<longrightarrow> token creds = Some a) \<and>
   (accessToken creds = None \<or> accessToken creds = Some [] \<longrightarrow> token creds = apiKey creds)"
proof -
  have "cfg_authorization cfg = authHeader creds"
    if req: "Request cfg \<in> set (snd (makeAirtableRequest http url data creds meth timeout maxRetries retryDelay))"
  proof (cases "0 \<le> maxRetries")
    case True
    then obtain m where
      "makeAirtableRequest http url data creds meth timeout maxRetries retryDelay =
             (outcome_of (http m),
              backoff_rounds (request_config url data creds meth timeout) retryDelay 0 m
                @ [Request (request_config url data creds meth timeout)])"
      using makeAirtableRequest_shape by blast
    then have "cfg = request_config url data creds meth timeout"
      using req run_trace_requests by fastforce
    then show ?thesis by (simp add: request_config_def)
  next
    case False
    then show ?thesis using req by (simp add: makeAirtableRequest_no_attempt)
  qed
  then show ?thesis
    by (auto simp: authHeader_def token_def)
qed

theorem makeAirtableRequest_authorization_header_witness:
  "Request (request_config ''u'' (None :: jsval option) pat_credentials None 30000)
     \<in> set (snd (makeAirtableRequest
          (once_limited_then (Failure unprocessable) :: nat \<Rightarrow> jsval response)
          ''u'' (None :: jsval option) pat_credentials None 30000 3 1000)) \<and>
   cfg_authorization (request_config ''u'' (None :: jsval option) pat_credentials None 30000)
     = Some ''Bearer patXYZ'' \<and>
   authHeader pat_credentials = Some ''Bearer patXYZ'' \<and>
   authHeader legacy_credentials = Some ''keyABC'' \<and>
   token \<lparr> authenticationType = Some ''pat'', accessToken = Some ''tok'', apiKey = Some ''key'' \<rparr>
     = Some ''tok'' \<and>
   token \<lparr> authenticationType = Some ''pat'', accessToken = Some [], apiKey = Some ''key'' \<rparr>
     = Some ''key''"
proof -
  have mem: "Request (request_config ''u'' (None :: jsval option) pat_credentials None 30000)
     \<in> set (snd (makeAirtableRequest
          (once_limited_then (Failure unprocessable) :: nat \<Rightarrow> jsval response)
          ''u'' (None :: jsval option) pat_credentials None 30000 3 1000))"
    by (simp add: sample_run_422)
  have pat: "cfg_authorization (request_config ''u'' (None :: jsval option) pat_credentials None 30000)
       = authHeader pat_credentials \<and>
     authHeader pat_credentials = Some ''Bearer patXYZ''"
    using mem makeAirtableRequest_authorization_header [where creds = pat_credentials and t = "''patXYZ''" and a = "''patXYZ''"
        and cfg = "request_config ''u'' (None :: jsval option) pat_credentials None 30000"
        and http = "once_limited_then (Failure unprocessable) :: nat \<Rightarrow> jsval response"
        and url = "''u''" and data = "None :: jsval option" and meth = None and timeout = 30000
        and maxRetries = 3 and retryDelay = 1000]
    by (simp add: pat_credentials_def)
  have legacy: "authHeader legacy_credentials = Some ''keyABC''"
    using makeAirtableRequest_authorization_header [where creds = legacy_credentials and t = "''x''" and a = "''x''"
        and cfg = "request_config ''u'' (None :: jsval option) pat_credentials None 30000"
        and http = "once_limited_then (Failure unprocessable) :: nat \<Rightarrow> jsval response"
        and url = "''u''" and data = "None :: jsval option" and meth = None and timeout = 30000
        and maxRetries = 3 and retryDelay = 1000]
    by (simp add: legacy_credentials_def)
  have both: "token \<lparr> authenticationType = Some ''pat'', accessToken = Some ''tok'',
                       apiKey = Some ''key'' \<rparr> = Some ''tok''"
    using makeAirtableRequest_authorization_header [where creds = "\<lparr> authenticationType = Some ''pat'', accessToken = Some ''tok'',
                             apiKey = Some ''key'' \<rparr>" and a = "''tok''" and t = "''x''"
        and cfg = "request_config ''u'' (None :: jsval option) pat_credentials None 30000"
        and http = "once_limited_then (Failure unprocessable) :: nat \<Rightarrow> jsval response"
        and url = "''u''" and data = "None :: jsval option" and meth = None and timeout = 30000
        and maxRetries = 3 and retryDelay = 1000]
    by simp
  have empty: "token \<lparr> authenticationType = Some ''pat'', accessToken = Some [],
                       apiKey = Some ''key'' \<rparr> = Some ''key''"
    using makeAirtableRequest_authorization_header [where creds = "\<lparr> authenticationType = Some ''pat'', accessToken = Some [],
                             apiKey = Some ''key'' \<rparr>" and a = "''tok''" and t = "''x''"
        and cfg = "request_config ''u'' (None :: jsval option) pat_credentials None 30000"
        and http = "once_limited_then (Failure unprocessable) :: nat \<Rightarrow> jsval response"
        and url = "''u''" and data = "None :: jsval option" and meth = None and timeout = 30000
        and maxRetries = 3 and retryDelay = 1000]
    by simp
  show ?thesis using mem pat legacy both empty by simp
qed

section \<open>Properties of the polling trigger\<close>

lemma poll_cycle_success:
  "poll_cycle parseDate c st (Success data) now =
     (if new_records parseDate (lastCheck st) data = [] then st\<lparr> lastCheck := now \<rparr>
      else st\<lparr> lastCheck := now,
               emitted := emitted st @ [map project (new_records parseDate (lastCheck st) data)] \<rparr>)"
  by (simp add: poll_cycle_def pollRecords_def new_records_def records_of_def Let_def)

lemma poll_cycle_failure:
  "poll_cycle parseDate c st (Failure e) now =
     st\<lparr> log := log st @ [(''Airtable Trigger Error:'', err_message e), (cycle_label c, err_message e)] \<rparr>"
  by (simp add: poll_cycle_def pollRecords_def)

lemma is_new_iff:
  "is_new parseDate T r \<longleftrightarrow> (\<exists>t. parseDate (rec_createdTime r) = Some t \<and> T < t)"
  by (simp add: is_new_def split: option.splits)

lemma run_trigger_Nil: "run_trigger parseDate st [] = st"
  by (simp add: run_trigger_def)

lemma run_trigger_Cons:
  "run_trigger parseDate st (ev # evs) = run_trigger parseDate (trigger_step parseDate st ev) evs"
  by (simp add: run_trigger_def)

lemma run_trigger_append:
  "run_trigger parseDate st (evs @ evs') = run_trigger parseDate (run_trigger parseDate st evs) evs'"
  by (simp add: run_trigger_def)

lemma poll_cycle_timer: "timer (poll_cycle parseDate c st res now) = timer st"
  by (cases res) (simp_all add: poll_cycle_success poll_cycle_failure)

lemma poll_cycle_pending: "pending (poll_cycle parseDate c st res now) = pending st"
  by (cases res) (simp_all add: poll_cycle_success poll_cycle_failure)

lemma poll_cycle_emitted:
  "emitted (poll_cycle parseDate c st res now) = emitted st \<or>
   (\<exists>batch. batch \<noteq> [] \<and> emitted (poll_cycle parseDate c st res now) = emitted st @ [batch])"
  by (cases res) (simp_all add: poll_cycle_success poll_cycle_failure)

lemma trigger_step_timer:
  "timer (trigger_step parseDate st ev) = (if ev = Cancel then None else timer st)"
  by (cases ev) (simp_all add: poll_cycle_timer)

lemma trigger_step_stopped:
  assumes "timer st = None"
  shows "timer (trigger_step parseDate st ev) = None \<and>
         length (pending (trigger_step parseDate st ev)) \<le> length (pending st) \<and>
         length (emitted (trigger_step parseDate st ev)) + length (pending (trigger_step parseDate st ev))
           \<le> length (emitted st) + length (pending st) \<and>
         prefix (emitted st) (emitted (trigger_step parseDate st ev))"
proof (cases ev)
  case Tick
  then show ?thesis using assms by simp
next
  case Cancel
  then show ?thesis using assms by simp
next
  case (Responded c res now)
  show ?thesis
  proof (cases "c \<in> set (pending st)")
    case False
    then show ?thesis using assms Responded by simp
  next
    case True
    then have len: "length (remove1 c (pending st)) = length (pending st) - 1" "0 < length (pending st)"
      by (auto simp: length_remove1)
    have em: "emitted (poll_cycle parseDate c (st\<lparr> pending := remove1 c (pending st) \<rparr>) res now) = emitted st \<or>
      (\<exists>batch. batch \<noteq> [] \<and> emitted (poll_cycle parseDate c (st\<lparr> pending := remove1 c (pending st) \<rparr>) res now)
          = emitted st @ [batch])"
      using poll_cycle_emitted [of parseDate c "st\<lparr> pending := remove1 c (pending st) \<rparr>" res now]
      by simp
    then show ?thesis
      using assms Responded True len
      by (auto simp: poll_cycle_timer poll_cycle_pending)
  qed
qed

lemma run_trigger_stopped:
  assumes "timer st = None"
  shows "timer (run_trigger parseDate st evs) = None \<and>
         length (pending (run_trigger parseDate st evs)) \<le> length (pending st) \<and>
         length (emitted (run_trigger parseDate st evs)) + length (pending (run_trigger parseDate st evs))
           \<le> length (emitted st) + length (pending st) \<and>
         prefix (emitted st) (emitted (run_trigger parseDate st evs))"
  using assms
proof (induction evs arbitrary: st)
  case Nil
  then show ?case by (simp add: run_trigger_Nil)
next
  case (Cons ev evs)
  note step = trigger_step_stopped [OF Cons.prems, of parseDate ev]
  then have "timer (trigger_step parseDate st ev) = None" by simp
  note rest = Cons.IH [OF this]
  show ?case
    using step rest unfolding run_trigger_Cons
    by (meson le_trans prefix_order.order_trans)
qed

lemma run_trigger_only_cancel_stops:
  assumes "timer st \<noteq> None" "timer (run_trigger parseDate st evs) = None"
  shows "Cancel \<in> set evs"
  using assms
proof (induction evs arbitrary: st)
  case Nil
  then show ?case by (simp add: run_trigger_Nil)
next
  case (Cons ev evs)
  show ?case
  proof (cases "ev = Cancel")
    case True
    then show ?thesis by simp
  next
    case False
    then have "timer (trigger_step parseDate st ev) \<noteq> None"
      using Cons.prems(1) by (simp add: trigger_step_timer)
    then have "Cancel \<in> set evs"
      using Cons.IH Cons.prems(2) by (simp add: run_trigger_Cons)
    then show ?thesis by simp
  qed
qed

text \<open>
  Claim C4. When the request of a poll cycle resolves, the cycle emits one batch holding
  the projection \<open>{recordId, fields, createdTime}\<close> of exactly the records whose creation
  time is after the watermark, in the order of the response, and emits nothing when there
  is no such record. For creation times \<open>T - 1\<close>, \<open>T\<close>, \<open>T + 1\<close>, \<open>T + 5\<close> and watermark \<open>T\<close>
  the batch holds the last two records.
\<close>

theorem poll_cycle_emits_new_records:
  assumes "c \<in> set (pending st)"
  shows "emitted (trigger_step parseDate st (Responded c (Success data) now)) =
           (if new_records parseDate (lastCheck st) data = [] then emitted st
            else emitted st @ [map project (new_records parseDate (lastCheck st) data)]) \<and>
         set (new_records parseDate (lastCheck st) data) =
           {r \<in> set (records_of data). \<exists>t. parseDate (rec_createdTime r) = Some t \<and> lastCheck st < t} \<and>
         json (project r) = \<lparr> recordId = rec_id r, item_fields = rec_fields r,
                               createdTime = rec_createdTime r \<rparr> \<and>
         (parseDate (rec_createdTime r1) = Some (lastCheck st - 1) \<and>
          parseDate (rec_createdTime r2) = Some (lastCheck st) \<and>
          parseDate (rec_createdTime r3) = Some (lastCheck st + 1) \<and>
          parseDate (rec_createdTime r4) = Some (lastCheck st + 5) \<longrightarrow>
          emitted (trigger_step parseDate st (Responded c (Success (Some [r1, r2, r3, r4])) now)) =
            emitted st @ [[project r3, project r4]])"
proof (intro conjI impI)
  show "emitted (trigger_step parseDate st (Responded c (Success data) now)) =
           (if new_records parseDate (lastCheck st) data = [] then emitted st
            else emitted st @ [map project (new_records parseDate (lastCheck st) data)])"
    using assms by (simp add: poll_cycle_success)
  show "set (new_records parseDate (lastCheck st) data) =
           {r \<in> set (records_of data). \<exists>t. parseDate (rec_createdTime r) = Some t \<and> lastCheck st < t}"
    by (auto simp: new_records_def is_new_iff)
  show "json (project r) = \<lparr> recordId = rec_id r, item_fields = rec_fields r,
                               createdTime = rec_createdTime r \<rparr>"
    by (simp add: project_def)
next
  assume "parseDate (rec_createdTime r1) = Some (lastCheck st - 1) \<and>
          parseDate (rec_createdTime r2) = Some (lastCheck st) \<and>
          parseDate (rec_createdTime r3) = Some (lastCheck st + 1) \<and>
          parseDate (rec_createdTime r4) = Some (lastCheck st + 5)"
  then have "new_records parseDate (lastCheck st) (Some [r1, r2, r3, r4]) = [r3, r4]"
    by (simp add: new_records_def records_of_def is_new_def)
  then show "emitted (trigger_step parseDate st (Responded c (Success (Some [r1, r2, r3, r4])) now)) =
            emitted st @ [[project r3, project r4]]"
    using assms by (simp add: poll_cycle_success)
qed

theorem poll_cycle_emits_new_records_witness:
  "emitted (trigger_step sample_parse polling (Responded TimerTick (Success (Some four_records)) 2000))
     = [[project (sample_record ''rec3'' ''T+1''), project (sample_record ''rec4'' ''T+5'')]] \<and>
   emitted (trigger_step sample_parse polling
      (Responded TimerTick (Success (Some [sample_record ''rec1'' ''T-1'', sample_record ''rec2'' ''T''])) 2000))
     = []"
proof -
  have pend: "TimerTick \<in> set (pending polling)" by (simp add: polling_def)
  have times: "sample_parse (rec_createdTime (sample_record ''rec1'' ''T-1'')) = Some (lastCheck polling - 1) \<and>
      sample_parse (rec_createdTime (sample_record ''rec2'' ''T'')) = Some (lastCheck polling) \<and>
      sample_parse (rec_createdTime (sample_record ''rec3'' ''T+1'')) = Some (lastCheck polling + 1) \<and>
      sample_parse (rec_createdTime (sample_record ''rec4'' ''T+5'')) = Some (lastCheck polling + 5)"
    by (simp add: sample_parse_def sample_record_def polling_def)
  have none: "new_records sample_parse (lastCheck polling)
      (Some [sample_record ''rec1'' ''T-1'', sample_record ''rec2'' ''T'']) = []"
    by (simp add: new_records_def records_of_def is_new_def sample_parse_def sample_record_def
          polling_def)
  have e: "emitted polling = []" by (simp add: polling_def)
  have a: "emitted (trigger_step sample_parse polling (Responded TimerTick (Success (Some four_records)) 2000))
     = [[project (sample_record ''rec3'' ''T+1''), project (sample_record ''rec4'' ''T+5'')]]"
  proof -
    note inst = poll_cycle_emits_new_records [OF pend, where parseDate = sample_parse and now = 2000
        and data = "Some four_records" and r = "sample_record ''rec1'' ''T-1''"
        and ?r1.0 = "sample_record ''rec1'' ''T-1''" and ?r2.0 = "sample_record ''rec2'' ''T''"
        and ?r3.0 = "sample_record ''rec3'' ''T+1''" and ?r4.0 = "sample_record ''rec4'' ''T+5''"]
    from inst times have "emitted (trigger_step sample_parse polling
        (Responded TimerTick (Success (Some [sample_record ''rec1'' ''T-1'', sample_record ''rec2'' ''T'',
           sample_record ''rec3'' ''T+1'', sample_record ''rec4'' ''T+5''])) 2000))
      = emitted polling @ [[project (sample_record ''rec3'' ''T+1''), project (sample_record ''rec4'' ''T+5'')]]"
      by blast
    then show ?thesis by (simp only: e four_records_def append_Nil)
  qed
  have b: "emitted (trigger_step sample_parse polling
      (Responded TimerTick (Success (Some [sample_record ''rec1'' ''T-1'', sample_record ''rec2'' ''T''])) 2000))
     = []"
  proof -
    note inst = poll_cycle_emits_new_records [OF pend, where parseDate = sample_parse and now = 2000
        and data = "Some [sample_record ''rec1'' ''T-1'', sample_record ''rec2'' ''T'']"
        and r = "sample_record ''rec1'' ''T-1''"
        and ?r1.0 = "sample_record ''rec1'' ''T-1''" and ?r2.0 = "sample_record ''rec2'' ''T''"
        and ?r3.0 = "sample_record ''rec3'' ''T+1''" and ?r4.0 = "sample_record ''rec4'' ''T+5''"]
    from inst have "emitted (trigger_step sample_parse polling
        (Responded TimerTick (Success (Some [sample_record ''rec1'' ''T-1'', sample_record ''rec2'' ''T''])) 2000))
      = (if new_records sample_parse (lastCheck polling)
             (Some [sample_record ''rec1'' ''T-1'', sample_record ''rec2'' ''T'']) = []
         then emitted polling
         else emitted polling @ [map project (new_records sample_parse (lastCheck polling)
             (Some [sample_record ''rec1'' ''T-1'', sample_record ''rec2'' ''T'']))])"
      by blast
    then show ?thesis by (simp add: none e)
  qed
  show ?thesis using a b by simp
qed

lemma trigger_step_failed_or_tick:
  assumes "failed_or_tick ev"
  shows "lastCheck (trigger_step parseDate st ev) = lastCheck st \<and>
         emitted (trigger_step parseDate st ev) = emitted st \<and>
         timer (trigger_step parseDate st ev) = timer st"
proof (cases ev)
  case Tick
  then show ?thesis by simp
next
  case (Responded c res now)
  then obtain e where "res = Failure e"
    using assms by (cases res) (simp_all add: failed_or_tick_def)
  then show ?thesis using Responded by (simp add: poll_cycle_failure)
next
  case Cancel
  then show ?thesis using assms by (simp add: failed_or_tick_def)
qed

lemma run_trigger_failed_or_tick:
  assumes "list_all failed_or_tick evs"
  shows "lastCheck (run_trigger parseDate st evs) = lastCheck st \<and>
         emitted (run_trigger parseDate st evs) = emitted st \<and>
         timer (run_trigger parseDate st evs) = timer st"
  using assms
proof (induction evs arbitrary: st)
  case Nil
  then show ?case by (simp add: run_trigger_Nil)
next
  case (Cons ev evs)
  then have "failed_or_tick ev" "list_all failed_or_tick evs" by simp_all
  then show ?case
    using trigger_step_failed_or_tick [of ev parseDate st]
      Cons.IH [of "trigger_step parseDate st ev"]
    by (simp add: run_trigger_Cons)
qed

text \<open>
  Claim C5. A poll cycle whose request fails changes nothing but the log, where the error
  is entered twice (in \<open>pollRecords\<close> and in the caller): the watermark, the emitted
  batches and the timer are as they were. The timer still starts the next cycle, which
  itself changes nothing but the cycles in flight, and when that cycle succeeds it compares
  against the watermark from before the failure; so does a cycle that was in flight beside
  the failed one. The same holds after any number of timer firings and failed requests. A
  successful cycle moves the watermark to its completion time, whatever it found.
\<close>

theorem poll_cycle_failure_keeps_watermark:
  assumes "c \<in> set (pending st)"
  shows "trigger_step parseDate st (Responded c (Failure e) now) =
           st\<lparr> pending := remove1 c (pending st),
               log := log st @ [(''Airtable Trigger Error:'', err_message e),
                                (cycle_label c, err_message e)] \<rparr> \<and>
         lastCheck (trigger_step parseDate st (Responded c (Failure e) now)) = lastCheck st \<and>
         emitted (trigger_step parseDate st (Responded c (Failure e) now)) = emitted st \<and>
         timer (trigger_step parseDate st (Responded c (Failure e) now)) = timer st \<and>
         (timer st \<noteq> None \<longrightarrow>
            trigger_step parseDate (trigger_step parseDate st (Responded c (Failure e) now)) Tick
              = (trigger_step parseDate st (Responded c (Failure e) now))
                  \<lparr> pending := remove1 c (pending st) @ [TimerTick] \<rparr>) \<and>
         (timer st \<noteq> None \<longrightarrow>
            emitted (trigger_step parseDate
                       (trigger_step parseDate
                          (trigger_step parseDate st (Responded c (Failure e) now)) Tick)
                       (Responded TimerTick (Success data) now')) =
              (if new_records parseDate (lastCheck st) data = [] then emitted st
               else emitted st @ [map project (new_records parseDate (lastCheck st) data)]) \<and>
            lastCheck (trigger_step parseDate
                       (trigger_step parseDate
                          (trigger_step parseDate st (Responded c (Failure e) now)) Tick)
                       (Responded TimerTick (Success data) now')) = now') \<and>
         (c' \<in> set (remove1 c (pending st)) \<longrightarrow>
            emitted (trigger_step parseDate (trigger_step parseDate st (Responded c (Failure e) now))
                       (Responded c' (Success data) now')) =
              (if new_records parseDate (lastCheck st) data = [] then emitted st
               else emitted st @ [map project (new_records parseDate (lastCheck st) data)])) \<and>
         (list_all failed_or_tick evs \<longrightarrow>
            lastCheck (run_trigger parseDate st evs) = lastCheck st \<and>
            emitted (run_trigger parseDate st evs) = emitted st \<and>
            timer (run_trigger parseDate st evs) = timer st) \<and>
         lastCheck (trigger_step parseDate st (Responded c (Success data) now)) = now"
proof -
  have failed: "trigger_step parseDate st (Responded c (Failure e) now) =
           st\<lparr> pending := remove1 c (pending st),
               log := log st @ [(''Airtable Trigger Error:'', err_message e),
                                (cycle_label c, err_message e)] \<rparr>"
    using assms by (simp add: poll_cycle_failure)
  have quiet: "list_all failed_or_tick evs \<longrightarrow>
            lastCheck (run_trigger parseDate st evs) = lastCheck st \<and>
            emitted (run_trigger parseDate st evs) = emitted st \<and>
            timer (run_trigger parseDate st evs) = timer st"
    using run_trigger_failed_or_tick [of evs parseDate st] by blast
  have rest: "lastCheck (trigger_step parseDate st (Responded c (Failure e) now)) = lastCheck st \<and>
         emitted (trigger_step parseDate st (Responded c (Failure e) now)) = emitted st \<and>
         timer (trigger_step parseDate st (Responded c (Failure e) now)) = timer st \<and>
         (timer st \<noteq> None \<longrightarrow>
            trigger_step parseDate (trigger_step parseDate st (Responded c (Failure e) now)) Tick
              = (trigger_step parseDate st (Responded c (Failure e) now))
                  \<lparr> pending := remove1 c (pending st) @ [TimerTick] \<rparr>) \<and>
         (timer st \<noteq> None \<longrightarrow>
            emitted (trigger_step parseDate
                       (trigger_step parseDate
                          (trigger_step parseDate st (Responded c (Failure e) now)) Tick)
                       (Responded TimerTick (Success data) now')) =
              (if new_records parseDate (lastCheck st) data = [] then emitted st
               else emitted st @ [map project (new_records parseDate (lastCheck st) data)]) \<and>
            lastCheck (trigger_step parseDate
                       (trigger_step parseDate
                          (trigger_step parseDate st (Responded c (Failure e) now)) Tick)
                       (Responded TimerTick (Success data) now')) = now') \<and>
         (c' \<in> set (remove1 c (pending st)) \<longrightarrow>
            emitted (trigger_step parseDate (trigger_step parseDate st (Responded c (Failure e) now))
                       (Responded c' (Success data) now')) =
              (if new_records parseDate (lastCheck st) data = [] then emitted st
               else emitted st @ [map project (new_records parseDate (lastCheck st) data)])) \<and>
         lastCheck (trigger_step parseDate st (Responded c (Success data) now)) = now"
    using assms by (simp add: poll_cycle_failure poll_cycle_success)
  show ?thesis using failed quiet rest by blast
qed

theorem poll_cycle_failure_keeps_watermark_witness:
  "lastCheck (trigger_step sample_parse waiting (Responded TimerTick (Failure timed_out) 61000)) = 1000 \<and>
   emitted (trigger_step sample_parse waiting (Responded TimerTick (Failure timed_out) 61000)) = [] \<and>
   timer (trigger_step sample_parse waiting (Responded TimerTick (Failure timed_out) 61000))
     = Some 60000 \<and>
   log (trigger_step sample_parse waiting (Responded TimerTick (Failure timed_out) 61000)) =
     [(''Airtable Trigger Error:'', ''timeout of 30000ms exceeded''),
      (''Polling error:'', ''timeout of 30000ms exceeded'')] \<and>
   pending (trigger_step sample_parse waiting (Responded TimerTick (Failure timed_out) 61000)) = [] \<and>
   emitted (trigger_step sample_parse
       (trigger_step sample_parse
          (trigger_step sample_parse waiting (Responded TimerTick (Failure timed_out) 61000)) Tick)
       (Responded TimerTick (Success (Some four_records)) 121500))
     = [[project (sample_record ''rec3'' ''T+1''), project (sample_record ''rec4'' ''T+5'')]] \<and>
   lastCheck (trigger_step sample_parse
       (trigger_step sample_parse
          (trigger_step sample_parse waiting (Responded TimerTick (Failure timed_out) 61000)) Tick)
       (Responded TimerTick (Success (Some four_records)) 121500)) = 121500 \<and>
   lastCheck (run_trigger sample_parse waiting
       [Responded TimerTick (Failure timed_out) 61000, Tick,
        Responded TimerTick (Failure timed_out) 121000, Tick]) = 1000 \<and>
   lastCheck (trigger_step sample_parse waiting (Responded TimerTick (Success (Some [])) 61000)) = 61000"
proof -
  have pend: "TimerTick \<in> set (pending waiting)" by (simp add: waiting_def)
  have st: "lastCheck waiting = 1000" "emitted waiting = []" "timer waiting = Some 60000"
    "log waiting = []" "pending waiting = [TimerTick]" "timer waiting \<noteq> None"
    by (simp_all add: waiting_def)
  have new: "new_records sample_parse 1000 (Some four_records)
      = [sample_record ''rec3'' ''T+1'', sample_record ''rec4'' ''T+5'']"
    by (simp add: new_records_def records_of_def is_new_def sample_parse_def sample_record_def
          four_records_def)
  have msg: "err_message timed_out = ''timeout of 30000ms exceeded''"
    "cycle_label TimerTick = ''Polling error:''"
    by (simp_all add: timed_out_def cycle_label_def)
  have quiet: "list_all failed_or_tick
       [Responded TimerTick (Failure timed_out) 61000, Tick,
        Responded TimerTick (Failure timed_out) 121000, Tick :: jsval trigger_event]"
    by (simp add: failed_or_tick_def)
  note inst = poll_cycle_failure_keeps_watermark [OF pend, where parseDate = sample_parse
        and e = timed_out and now = 61000 and c' = TimerTick and data = "Some four_records"
        and now' = 121500
        and evs = "[Responded TimerTick (Failure timed_out) 61000, Tick,
                    Responded TimerTick (Failure timed_out) 121000, Tick]"]
  note inst' = poll_cycle_failure_keeps_watermark [OF pend, where parseDate = sample_parse
        and e = timed_out and now = 61000 and c' = TimerTick and data = "Some []"
        and now' = 121500 and evs = "[]"]
  have failed: "trigger_step sample_parse waiting (Responded TimerTick (Failure timed_out) 61000) =
           waiting\<lparr> pending := remove1 TimerTick (pending waiting),
               log := log waiting @ [(''Airtable Trigger Error:'', err_message timed_out),
                                (cycle_label TimerTick, err_message timed_out)] \<rparr>"
    using inst by blast
  have a: "lastCheck (trigger_step sample_parse waiting (Responded TimerTick (Failure timed_out) 61000))
        = lastCheck waiting \<and>
     emitted (trigger_step sample_parse waiting (Responded TimerTick (Failure timed_out) 61000))
        = emitted waiting \<and>
     timer (trigger_step sample_parse waiting (Responded TimerTick (Failure timed_out) 61000))
        = timer waiting"
    using inst by blast
  have b: "emitted (trigger_step sample_parse
       (trigger_step sample_parse
          (trigger_step sample_parse waiting (Responded TimerTick (Failure timed_out) 61000)) Tick)
       (Responded TimerTick (Success (Some four_records)) 121500))
     = (if new_records sample_parse (lastCheck waiting) (Some four_records) = [] then emitted waiting
        else emitted waiting @
          [map project (new_records sample_parse (lastCheck waiting) (Some four_records))]) \<and>
     lastCheck (trigger_step sample_parse
       (trigger_step sample_parse
          (trigger_step sample_parse waiting (Responded TimerTick (Failure timed_out) 61000)) Tick)
       (Responded TimerTick (Success (Some four_records)) 121500)) = 121500"
    using inst st(6) by blast
  have c: "lastCheck (run_trigger sample_parse waiting
       [Responded TimerTick (Failure timed_out) 61000, Tick,
        Responded TimerTick (Failure timed_out) 121000, Tick]) = lastCheck waiting"
    using inst quiet by blast
  have d: "lastCheck (trigger_step sample_parse waiting (Responded TimerTick (Success (Some [])) 61000))
        = 61000"
    using inst' by blast
  have l: "log (trigger_step sample_parse waiting (Responded TimerTick (Failure timed_out) 61000)) =
     [(''Airtable Trigger Error:'', ''timeout of 30000ms exceeded''),
      (''Polling error:'', ''timeout of 30000ms exceeded'')]"
    "pending (trigger_step sample_parse waiting (Responded TimerTick (Failure timed_out) 61000)) = []"
    unfolding failed by (simp_all add: st msg)
  show ?thesis
    using a b c d l by (simp add: st new)
qed

lemma trigger_period_in_range:
  assumes "s * 1000 \<le> 2147483647" "trigger s creds now = Inr st"
  shows "timer st = Some (max (s * 1000) 30000)"
  using assms
  by (auto simp: pollInterval_def trigger_def setInterval_period_def split: option.splits if_splits)

text \<open>
  Claim C6 fails on the code for a configured interval of 2147484 seconds or more. The code
  computes \<open>max (s * 1000) 30000\<close> and hands it to \<open>setInterval\<close>; for such an interval the
  delay is above \<open>2^31 - 1\<close> milliseconds, the runtime replaces it by 1 millisecond, and the
  trigger polls every millisecond, below the minimum of 30 seconds that the code's comment
  and the description of the parameter state. For 5 seconds the period is 30000.
\<close>

theorem pollInterval_floor_lost:
  "pollInterval 2147484 = 2147484000 \<and>
   trigger 2147484 (Some pat_credentials) 900 = Inr (activated\<lparr> timer := Some 1 \<rparr>) \<and>
   pollInterval 5 = 30000 \<and>
   trigger 5 (Some pat_credentials) 900 = Inr (activated\<lparr> timer := Some 30000 \<rparr>)"
  by (simp add: trigger_def pollInterval_def setInterval_period_def is_set_def pat_credentials_def
        activated_def)

text \<open>
  Claim C9, as stated, fails: a cycle whose request is in flight when the cleanup function
  runs still emits its batch when the response arrives. The run below activates a trigger,
  completes the initial poll, lets the timer start a cycle, cancels, and then delivers the
  response of that cycle.
\<close>

theorem emission_after_cancel:
  "trigger 60 (Some pat_credentials) 900 = Inr activated \<and>
   timer (run_trigger sample_parse activated
            [Responded InitialPoll (Success (Some [])) 1000, Tick, Cancel]) = None \<and>
   emitted (run_trigger sample_parse activated
            [Responded InitialPoll (Success (Some [])) 1000, Tick, Cancel]) = [] \<and>
   emitted (run_trigger sample_parse activated
            [Responded InitialPoll (Success (Some [])) 1000, Tick, Cancel,
             Responded TimerTick (Success (Some [sample_record ''rec1'' ''T+1''])) 61000])
     = [[project (sample_record ''rec1'' ''T+1'')]]"
  by (simp add: trigger_def pollInterval_def setInterval_period_def is_set_def pat_credentials_def
        activated_def run_trigger_def poll_cycle_success new_records_def records_of_def
        is_new_def sample_parse_def sample_record_def)

text \<open>
  Claim C9, amended. The cleanup function clears the timer. From then on the timer stays
  cleared, a firing of the timer starts nothing, no new cycle comes into flight, the batches
  already emitted stay, and at most one further batch is emitted per cycle that was in flight
  at the time of the call: none at all when no cycle was in flight. A trigger whose timer was
  set and is cleared after some events has seen \<open>Cancel\<close> among them.
\<close>

theorem cancel_stops_new_cycles:
  "timer (trigger_step parseDate st Cancel) = None \<and>
   (timer st = None \<longrightarrow>
      trigger_step parseDate st Tick = st \<and>
      timer (run_trigger parseDate st evs) = None \<and>
      length (pending (run_trigger parseDate st evs)) \<le> length (pending st) \<and>
      prefix (emitted st) (emitted (run_trigger parseDate st evs)) \<and>
      length (emitted (run_trigger parseDate st evs)) \<le> length (emitted st) + length (pending st) \<and>
      (pending st = [] \<longrightarrow> emitted (run_trigger parseDate st evs) = emitted st)) \<and>
   (timer st \<noteq> None \<and> timer (run_trigger parseDate st evs) = None \<longrightarrow> Cancel \<in> set evs)"
proof -
  have stopped: "timer (run_trigger parseDate st evs) = None \<and>
      length (pending (run_trigger parseDate st evs)) \<le> length (pending st) \<and>
      prefix (emitted st) (emitted (run_trigger parseDate st evs)) \<and>
      length (emitted (run_trigger parseDate st evs)) \<le> length (emitted st) + length (pending st) \<and>
      (pending st = [] \<longrightarrow> emitted (run_trigger parseDate st evs) = emitted st)"
    if "timer st = None"
  proof -
    note r = run_trigger_stopped [OF that, of parseDate evs]
    have "emitted (run_trigger parseDate st evs) = emitted st" if "pending st = []"
    proof -
      have "length (emitted (run_trigger parseDate st evs)) \<le> length (emitted st)"
        using r that by simp
      moreover have "prefix (emitted st) (emitted (run_trigger parseDate st evs))" using r by simp
      ultimately show ?thesis
        by (auto simp: prefix_def)
    qed
    then show ?thesis using r by simp
  qed
  show ?thesis
    using stopped run_trigger_only_cancel_stops [of st parseDate evs] by simp
qed

theorem cancel_stops_new_cycles_witness:
  "timer (trigger_step sample_parse activated Cancel) = None \<and>
   emitted (run_trigger sample_parse
      (run_trigger sample_parse activated [Responded InitialPoll (Success (Some [])) 1000, Cancel])
      [Tick, Responded TimerTick (Success (Some four_records)) 61000, Tick]) = [] \<and>
   Cancel \<in> set [Responded InitialPoll (Success (Some [])) 1000, Cancel :: jsval trigger_event]"
proof -
  let ?st = "run_trigger sample_parse activated [Responded InitialPoll (Success (Some [])) 1000, Cancel]"
  have st: "timer ?st = None" "pending ?st = []" "emitted ?st = []"
    by (simp_all add: run_trigger_def activated_def poll_cycle_success new_records_def records_of_def)
  have act: "timer activated \<noteq> None" by (simp add: activated_def)
  show ?thesis
    using cancel_stops_new_cycles [where parseDate = sample_parse and st = "?st"
        and evs = "[Tick, Responded TimerTick (Success (Some four_records)) 61000, Tick]"]
      cancel_stops_new_cycles [where parseDate = sample_parse and st = activated
        and evs = "[Responded InitialPoll (Success (Some [])) 1000, Cancel]"]
      st act
    by simp
qed

section \<open>Properties of the template substitution\<close>

lemma is_word_brace: "\<not> is_word CHR ''{''" "\<not> is_word CHR ''}''"
  by (simp_all add: is_word_def)

lemma takeWhile_key:
  assumes "list_all is_word key"
  shows "takeWhile is_word (key @ CHR ''}'' # t) = key" "dropWhile is_word (key @ CHR ''}'' # t) = CHR ''}'' # t"
  using assms by (induction key) (simp_all add: is_word_brace)

lemma match_placeholder_at:
  assumes "valid_key key"
  shows "match_placeholder (placeholder key @ post) = Some (key, post)"
  using assms takeWhile_key [of key "CHR ''}'' # post"]
  by (simp add: match_placeholder_def placeholder_def valid_key_def)

lemma match_placeholder_Some:
  assumes "match_placeholder s = Some (key, rest)"
  shows "valid_key key \<and> s = placeholder key @ rest"
proof -
  from assms obtain r where r: "s = ''{{json.'' @ r" "key = takeWhile is_word r" "key \<noteq> []"
      "dropWhile is_word r = ''}}'' @ rest"
    by (auto simp: match_placeholder_def strip_prefix_Some split: option.splits if_splits)
  have "r = key @ ''}}'' @ rest"
    using r(2,4) takeWhile_dropWhile_id [of is_word r] by simp
  moreover have "list_all is_word key"
    unfolding r(2) by (simp add: list_all_iff) (meson set_takeWhileD)
  ultimately show ?thesis using r(1,3) by (simp add: valid_key_def placeholder_def)
qed

lemma has_match_iff: "has_match s \<longleftrightarrow> has_placeholder s"
proof
  assume "has_match s"
  then show "has_placeholder s"
  proof (induction s)
    case Nil
    then show ?case by simp
  next
    case (Cons c cs)
    show ?case
    proof (cases "match_placeholder (c # cs)")
      case None
      then have "has_placeholder cs" using Cons by simp
      then obtain pre key post where "valid_key key" "cs = pre @ placeholder key @ post"
        by (auto simp: has_placeholder_def)
      then have "valid_key key \<and> c # cs = (c # pre) @ placeholder key @ post" by simp
      then show ?thesis unfolding has_placeholder_def by blast
    next
      case (Some kr)
      then obtain key rest where "match_placeholder (c # cs) = Some (key, rest)" by (cases kr) simp
      then have "valid_key key \<and> c # cs = [] @ placeholder key @ rest"
        using match_placeholder_Some by simp
      then show ?thesis unfolding has_placeholder_def by blast
    qed
  qed
next
  assume "has_placeholder s"
  then obtain pre key post where k: "valid_key key" and s: "s = pre @ placeholder key @ post"
    by (auto simp: has_placeholder_def)
  have "has_match (pre @ placeholder key @ post)"
  proof (induction pre)
    case Nil
    have ne: "placeholder key @ post \<noteq> []" by (simp add: placeholder_def)
    then obtain c cs where "placeholder key @ post = c # cs" by (cases "placeholder key @ post") auto
    then show ?case using match_placeholder_at [OF k, of post] by simp
  next
    case (Cons c pre)
    then show ?case by simp
  qed
  then show "has_match s" using s by simp
qed

lemma replace_placeholders_at:
  assumes "valid_key key"
  shows "replace_placeholders f (placeholder key @ post) = f key @ replace_placeholders f post"
proof -
  obtain c cs where c: "placeholder key @ post = c # cs"
    by (cases "placeholder key @ post") (auto simp: placeholder_def)
  show ?thesis
    using match_placeholder_at [OF assms, of post] unfolding c by simp
qed

lemma has_placeholder_Cons: "has_placeholder s \<Longrightarrow> has_placeholder (c # s)"
  unfolding has_match_iff [symmetric] by simp

lemma match_placeholder_None: "\<not> has_placeholder (c # cs) \<Longrightarrow> match_placeholder (c # cs) = None"
  unfolding has_match_iff [symmetric] by (cases "match_placeholder (c # cs)") auto

lemma replace_placeholders_none:
  "\<not> has_placeholder s \<Longrightarrow> replace_placeholders f s = s"
proof (induction s)
  case Nil
  then show ?case by simp
next
  case (Cons c cs)
  then have "\<not> has_placeholder cs" using has_placeholder_Cons by blast
  then have "replace_placeholders f cs = cs" by (rule Cons.IH)
  then show ?case using match_placeholder_None [OF Cons.prems] by simp
qed

lemma no_straddle:
  assumes "valid_key key" and m: "match_placeholder ((c # p) @ placeholder key @ post) = Some (k, r)"
  shows "has_placeholder (c # p)"
proof -
  from m have vk: "valid_key k" and eq: "(c # p) @ placeholder key @ post = placeholder k @ r"
    using match_placeholder_Some by blast+
  from eq obtain us where
    "(c # p = placeholder k @ us \<and> us @ placeholder key @ post = r) \<or>
     ((c # p) @ us = placeholder k \<and> placeholder key @ post = us @ r)"
    using append_eq_append_conv2 [of "c # p" "placeholder key @ post" "placeholder k" r] by blast
  then show ?thesis
  proof
    assume "c # p = placeholder k @ us \<and> us @ placeholder key @ post = r"
    then have "valid_key k \<and> c # p = [] @ placeholder k @ us" using vk by simp
    then show ?thesis unfolding has_placeholder_def by blast
  next
    assume b: "(c # p) @ us = placeholder k \<and> placeholder key @ post = us @ r"
    show ?thesis
    proof (cases us)
      case Nil
      then have "valid_key k \<and> c # p = [] @ placeholder k @ []" using b vk by simp
      then show ?thesis unfolding has_placeholder_def by blast
    next
      case (Cons u us')
      then have u: "u = CHR ''{''" using b by (simp add: placeholder_def)
      have tail: "p @ CHR ''{'' # us' = ''{json.'' @ k @ ''}}''"
        using b Cons u by (simp add: placeholder_def)
      show ?thesis
      proof (cases p)
        case Nil
        then have "us' = ''json.'' @ k @ ''}}''" using tail by simp
        then have False using b Cons by (simp add: placeholder_def)
        then show ?thesis ..
      next
        case (Cons p0 p')
        then have "p' @ CHR ''{'' # us' = ''json.'' @ k @ ''}}''" using tail by simp
        then have "CHR ''{'' \<in> set (''json.'' @ k @ ''}}'')"
          by (metis in_set_conv_decomp)
        then have "CHR ''{'' \<in> set k" by simp
        then have False using vk is_word_brace(1) by (auto simp: valid_key_def list_all_iff)
        then show ?thesis ..
      qed
    qed
  qed
qed

lemma replace_placeholders_first:
  assumes "valid_key key" "\<not> has_placeholder pre"
  shows "replace_placeholders f (pre @ placeholder key @ post) =
           pre @ f key @ replace_placeholders f post"
  using assms(2)
proof (induction pre)
  case Nil
  then show ?case by (simp add: replace_placeholders_at [OF assms(1)])
next
  case (Cons c p)
  have none: "match_placeholder ((c # p) @ placeholder key @ post) = None"
  proof (cases "match_placeholder ((c # p) @ placeholder key @ post)")
    case None
    then show ?thesis .
  next
    case (Some kr)
    then obtain k r where "match_placeholder ((c # p) @ placeholder key @ post) = Some (k, r)"
      by (cases kr) simp
    then have "has_placeholder (c # p)" using no_straddle [OF assms(1)] by blast
    then show ?thesis using Cons.prems by simp
  qed
  have "\<not> has_placeholder p"
    using Cons.prems has_placeholder_Cons by blast
  then have "replace_placeholders f (p @ placeholder key @ post) =
           p @ f key @ replace_placeholders f post"
    by (rule Cons.IH)
  then show ?case using none by simp
qed

lemma includes_str_if_has_match: "has_match s \<Longrightarrow> includes_str s ''{{''"
proof (induction s)
  case Nil
  then show ?case by simp
next
  case (Cons c cs)
  show ?case
  proof (cases "match_placeholder (c # cs)")
    case None
    then show ?thesis using Cons by simp
  next
    case (Some kr)
    then obtain k r where "match_placeholder (c # cs) = Some (k, r)" by (cases kr) simp
    then have "c # cs = placeholder k @ r" using match_placeholder_Some by blast
    then have "strip_prefix ''{{'' (c # cs) = Some (''json.'' @ k @ ''}}'' @ r)"
      by (simp add: strip_prefix_Some placeholder_def)
    then show ?thesis by simp
  qed
qed

lemma resolveValue_string:
  "resolveValue (JStr s) ctx =
     JStr (replace_placeholders (lookup_or_empty (case ctx of None \<Rightarrow> Map.empty | Some m \<Rightarrow> m)) s)"
proof (cases "includes_str s ''{{''")
  case True
  then show ?thesis by (simp add: resolveValue_def)
next
  case False
  then have "\<not> has_placeholder s"
    using includes_str_if_has_match has_match_iff by blast
  then show ?thesis using False by (simp add: resolveValue_def replace_placeholders_none)
qed

lemma resolveValue_other: "(\<forall>s. v \<noteq> JStr s) \<Longrightarrow> resolveValue v ctx = v"
  by (cases v) (simp_all add: resolveValue_def)

lemma object_prototype_truthy: "object_prototype key = Some x \<Longrightarrow> truthy x"
  by (auto simp: object_prototype_def split: if_splits)

lemma lookup_or_empty_cases:
  "(context key = None \<and> object_prototype key = None \<longrightarrow> lookup_or_empty context key = []) \<and>
   (context key = Some v \<and> \<not> truthy v \<longrightarrow> lookup_or_empty context key = []) \<and>
   (context key = Some v \<and> truthy v \<longrightarrow> lookup_or_empty context key = to_string v) \<and>
   (context key = Some (JStr t) \<longrightarrow> lookup_or_empty context key = t) \<and>
   (context key = None \<and> object_prototype key = Some v \<longrightarrow>
      lookup_or_empty context key = to_string v)"
  using object_prototype_truthy [of key v]
  by (auto simp: lookup_or_empty_def get_property_def)

lemma replace_placeholders_fill:
  assumes "plain_segments segs rest"
  shows "replace_placeholders f (fill placeholder segs rest) = fill f segs rest"
  using assms
proof (induction segs)
  case Nil
  then show ?case by (simp add: plain_segments_def replace_placeholders_none)
next
  case (Cons seg segs)
  obtain pre key where seg: "seg = (pre, key)" by (cases seg)
  have "plain_segments segs rest" using Cons.prems by (simp add: plain_segments_def)
  then have "replace_placeholders f (fill placeholder segs rest) = fill f segs rest"
    by (rule Cons.IH)
  moreover have "valid_key key" "\<not> has_placeholder pre"
    using Cons.prems by (simp_all add: plain_segments_def seg)
  ultimately show ?case
    by (simp add: seg replace_placeholders_first)
qed

lemma first_placeholder:
  assumes "has_match s"
  shows "\<exists>pre key post. s = pre @ placeholder key @ post \<and> valid_key key \<and> \<not> has_match pre"
  using assms
proof (induction s)
  case Nil
  then show ?case by simp
next
  case (Cons c cs)
  show ?case
  proof (cases "match_placeholder (c # cs)")
    case (Some kr)
    then obtain k r where "match_placeholder (c # cs) = Some (k, r)" by (cases kr) simp
    then have "c # cs = [] @ placeholder k @ r \<and> valid_key k \<and> \<not> has_match []"
      using match_placeholder_Some by simp
    then show ?thesis by blast
  next
    case None
    then have "has_match cs" using Cons.prems by simp
    then obtain pre key post where p: "cs = pre @ placeholder key @ post" "valid_key key"
        "\<not> has_match pre"
      using Cons.IH by blast
    have "\<not> has_match (c # pre)"
    proof
      assume "has_match (c # pre)"
      then have "match_placeholder (c # pre) \<noteq> None" using p(3) by simp
      then obtain k r where "match_placeholder (c # pre) = Some (k, r)" by auto
      then have "c # pre = placeholder k @ r" "valid_key k"
        using match_placeholder_Some by blast+
      then have "c # cs = placeholder k @ (r @ placeholder key @ post)" "valid_key k"
        using p(1) by simp_all
      then have "match_placeholder (c # cs) = Some (k, r @ placeholder key @ post)"
        using match_placeholder_at [of k "r @ placeholder key @ post"] by simp
      then show False using None by simp
    qed
    then have "c # cs = (c # pre) @ placeholder key @ post \<and> valid_key key \<and> \<not> has_match (c # pre)"
      using p by simp
    then show ?thesis by blast
  qed
qed

lemma length_placeholder: "0 < length (placeholder key)"
  by (simp add: placeholder_def)

lemma segments_exist: "\<exists>segs rest. plain_segments segs rest \<and> s = fill placeholder segs rest"
proof (induction "length s" arbitrary: s rule: less_induct)
  case less
  show ?case
  proof (cases "has_match s")
    case False
    then have "plain_segments [] s \<and> s = fill placeholder [] s"
      by (simp add: plain_segments_def has_match_iff)
    then show ?thesis by blast
  next
    case True
    then obtain pre key post where p: "s = pre @ placeholder key @ post" "valid_key key"
        "\<not> has_match pre"
      using first_placeholder by blast
    have "length post < length s" using p(1) length_placeholder [of key] by simp
    then obtain segs rest where r: "plain_segments segs rest" "post = fill placeholder segs rest"
      using less by blast
    have "plain_segments ((pre, key) # segs) rest \<and> s = fill placeholder ((pre, key) # segs) rest"
      using p r by (simp add: plain_segments_def has_match_iff)
    then show ?thesis by blast
  qed
qed

text \<open>The whole of \<open>resolveValue\<close>: a value that is not a string, and a string without
  \<open>{{\<close>, is returned as it is; every string is plain text with placeholders in between,
  and each placeholder is replaced by what the callback gives for its key: the string of
  the property read when that is truthy, the empty string otherwise.\<close>

lemma resolveValue_segments:
  "((\<forall>s. v \<noteq> JStr s) \<longrightarrow> resolveValue v (Some ctx) = v) \<and>
   (\<not> includes_str s ''{{'' \<longrightarrow> resolveValue (JStr s) (Some ctx) = JStr s) \<and>
   (\<not> has_placeholder s \<longrightarrow> resolveValue (JStr s) (Some ctx) = JStr s) \<and>
   (plain_segments segs rest \<longrightarrow>
      resolveValue (JStr (fill placeholder segs rest)) (Some ctx) =
        JStr (fill (lookup_or_empty ctx) segs rest)) \<and>
   (\<exists>segs' rest'. plain_segments segs' rest' \<and> s = fill placeholder segs' rest') \<and>
   resolveValue v None = resolveValue v (Some Map.empty) \<and>
   (ctx key = None \<and> object_prototype key = None \<longrightarrow> lookup_or_empty ctx key = []) \<and>
   (ctx key = Some x \<and> \<not> truthy x \<longrightarrow> lookup_or_empty ctx key = []) \<and>
   (ctx key = Some x \<and> truthy x \<longrightarrow> lookup_or_empty ctx key = to_string x) \<and>
   (ctx key = Some (JStr t) \<longrightarrow> lookup_or_empty ctx key = t) \<and>
   (ctx key = None \<and> object_prototype key = Some x \<longrightarrow> lookup_or_empty ctx key = to_string x)"
  using resolveValue_other [of v "Some ctx"]
    resolveValue_string [of s "Some ctx"]
    resolveValue_string [of "fill placeholder segs rest" "Some ctx"]
    replace_placeholders_none [of s "lookup_or_empty ctx"]
    replace_placeholders_fill [of segs rest "lookup_or_empty ctx"]
    segments_exist [of s]
    lookup_or_empty_cases [of ctx key x t]
  by (simp add: resolveValue_def)

lemma resolveValue_sample:
  "resolveValue (JBool True) (Some sample_context) = JBool True \<and>
   resolveValue (JStr ''plain {text}'') (Some sample_context) = JStr ''plain {text}'' \<and>
   resolveValue (JStr ''{{other}} {{json.}}'') (Some sample_context) = JStr ''{{other}} {{json.}}'' \<and>
   resolveValue (JStr ''Hi {{json.name}}{{json.zero}}{{json.gone}}, {{json.n}}!'') (Some sample_context)
     = JStr ''Hi Bob, 42!''"
proof -
  have dec42: "dec_int 42 = ''42''" by code_simp
  show ?thesis
    by (simp add: resolveValue_def match_placeholder_def is_word_def lookup_or_empty_def
          get_property_def object_prototype_def sample_context_def Abs_safe_int_inverse dec42)
qed

text \<open>
  Claim C10 fails on the code for a key that names a property every object inherits. With
  the template \<open>{{json.toString}}\<close> and a context with no property of its own (the default
  context, or the item \<open>{ json: {} }\<close> that \<open>execute\<close> makes up when it has no input), the
  key is absent from the context, yet \<open>context[key]\<close> reads the inherited function, which
  is truthy, and the placeholder is replaced by the text of that function, not by the empty
  string. A key that nothing defines gives the empty string.
\<close>

theorem resolveValue_inherited_key:
  "(Map.empty :: string \<rightharpoonup> jsval) ''toString'' = None \<and>
   resolveValue (JStr ''{{json.toString}}'') None
     = JStr ''function toString() { [native code] }'' \<and>
   resolveValue (JStr ''{{json.toString}}'') (Some Map.empty)
     = JStr ''function toString() { [native code] }'' \<and>
   resolveValue (JStr ''{{json.gone}}'') (Some Map.empty) = JStr []"
  by (simp add: resolveValue_def match_placeholder_def is_word_def lookup_or_empty_def
        get_property_def object_prototype_def)

end
